theory Spec2Isabelle
  imports Main "HOL-Library.AList" "HOL-Library.Multiset"
begin

section \<open>Data model of chialisp/test/__init__.py\<close>

text \<open>
  Byte strings (\<open>bytes32\<close> ids, puzzle hashes, keys, signatures, serialized programs)
  are lists of characters; \<open>+\<close> on bytes is \<open>@\<close>. Python integers are \<open>int\<close>. The
  \<open>uint64\<close> amount of a coin is read as an integer; that the ledger's coins carry
  non-negative amounts is stated as a hypothesis wherever a theorem depends on it.
\<close>

type_synonym bytes = string

type_synonym program = bytes

text \<open>
  The exceptions of this module: \<open>IndexError\<close> (\<open>coins[-1]\<close> of an empty list), a failed
  \<open>assert\<close>, the \<open>ValueError\<close> of \<open>launch_contract\<close> with the amount its message quotes,
  the \<open>ValueError\<close> of \<open>spend_coin\<close> for a remainder recipient that is neither a wallet
  nor a contract, and whatever else a library call raises.
\<close>

datatype py_error =
    IndexError
  | AssertionError
  | ValueError_no_coin int
  | ValueError_remainer
  | LibraryError string

text \<open>\<open>Coin(parent_coin_info, puzzle_hash, amount)\<close> and \<open>CoinWrapper(Coin)\<close> with its \<open>source\<close>.\<close>

record coin =
  parent_coin_info :: bytes
  puzzle_hash :: bytes
  amount :: int

record coin_wrapper = coin +
  source :: program

text \<open>
  The condition lists handed to \<open>Program.to\<close>: \<open>[opcode, args...]\<close> with the three opcodes
  this module emits.
\<close>

datatype condition =
    ASSERT_COIN_ANNOUNCEMENT bytes
  | CREATE_COIN_ANNOUNCEMENT bytes
  | CREATE_COIN bytes int

text \<open>
  A solution is either \<open>Program.to([[], Program.to((1, conditions)), []])\<close> (the standard
  spend) or \<open>Program.to(kwargs['args'])\<close> (the caller's own arguments).
\<close>

datatype solution = StandardSolution "condition list" | ArgsSolution program

datatype coin_solution = CoinSolution coin program solution

datatype spend_bundle = SpendBundle "coin_solution list" bytes

fun bundle_spends :: "spend_bundle \<Rightarrow> coin_solution list" where
  "bundle_spends (SpendBundle sols sig) = sols"

fun bundle_signature :: "spend_bundle \<Rightarrow> bytes" where
  "bundle_signature (SpendBundle sols sig) = sig"

record coin_record =
  cr_coin :: coin
  spent :: bool

text \<open>
  The cryptographic helpers imported from \<open>blspy\<close> and \<open>chia\<close> are parameters:
  \<open>coin_name\<close> is \<open>Coin.name()\<close>, \<open>delegated_tree_hash cs\<close> is
  \<open>Program.to((1, cs)).get_tree_hash()\<close>, \<open>synthetic_sk sk\<close> is
  \<open>calculate_synthetic_secret_key(sk, DEFAULT_HIDDEN_PUZZLE_HASH)\<close>, \<open>sign\<close> and
  \<open>aggregate\<close> are those of \<open>AugSchemeMPL\<close>, \<open>additional_data\<close> is
  \<open>DEFAULT_CONSTANTS.AGG_SIG_ME_ADDITIONAL_DATA\<close>, \<open>genesis_challenge_default\<close> is
  \<open>DEFAULT_CONSTANTS.GENESIS_CHALLENGE\<close>, and \<open>sign_coin_solutions sols pk sk\<close>
  is chia's \<open>sign_coin_solutions\<close> called with the closure \<open>pk_to_sk\<close> of a wallet whose
  keys are \<open>pk\<close> and \<open>sk\<close>; it returns a bundle or raises.
\<close>

record crypto =
  coin_name :: "coin \<Rightarrow> bytes"
  std_hash :: "bytes \<Rightarrow> bytes"
  get_tree_hash :: "program \<Rightarrow> bytes"
  delegated_tree_hash :: "condition list \<Rightarrow> bytes"
  synthetic_sk :: "bytes \<Rightarrow> bytes"
  sign :: "bytes \<Rightarrow> bytes \<Rightarrow> bytes"
  aggregate :: "bytes list \<Rightarrow> bytes"
  additional_data :: bytes
  genesis_challenge_default :: bytes
  sign_coin_solutions :: "coin_solution list \<Rightarrow> bytes \<Rightarrow> bytes \<Rightarrow> py_error + spend_bundle"

section \<open>CoinPairSearch\<close>

record coin_pair_search =
  target :: int
  total :: int
  max_coins :: "coin list"

definition CoinPairSearch :: "int \<Rightarrow> coin_pair_search" where
  "CoinPairSearch target_amount = \<lparr>target = target_amount, total = 0, max_coins = []\<rparr>"

text \<open>
  \<open>insort\<close>: the new coin goes before the first kept coin of strictly smaller amount, and
  at the end when there is none.
\<close>

fun insort_coin :: "coin list \<Rightarrow> coin \<Rightarrow> coin list" where
  "insort_coin [] c = [c]"
| "insort_coin (x # xs) c = (if amount x < amount c then c # x # xs else x # insort_coin xs c)"

text \<open>The \<open>while\<close> loop of \<open>process_coin_for_combine_search\<close>.\<close>

function evict :: "coin_pair_search \<Rightarrow> coin_pair_search" where
  "evict s =
     (if max_coins s \<noteq> [] \<and> total s - amount (last (max_coins s)) \<ge> target s
      then evict (s\<lparr>total := total s - amount (last (max_coins s)),
                    max_coins := butlast (max_coins s)\<rparr>)
      else s)"
  by pat_completeness auto
termination
  by (relation "measure (\<lambda>s. length (max_coins s))") auto

declare evict.simps [simp del]

definition process_coin_for_combine_search :: "coin_pair_search \<Rightarrow> coin \<Rightarrow> coin_pair_search" where
  "process_coin_for_combine_search s c =
     (let s1 = s\<lparr>total := total s + amount c\<rparr>
      in if length (max_coins s1) = 0 then s1\<lparr>max_coins := max_coins s1 @ [c]\<rparr>
         else evict (s1\<lparr>max_coins := insort_coin (max_coins s1) c\<rparr>))"

text \<open>
  \<open>Wallet.compute_combine_action(amt, actions, usable_coins)\<close>: the dictionary is an
  association list in insertion order, which is the order \<open>items()\<close> iterates in;
  \<open>actions\<close> is never read.
\<close>

definition search_coins :: "int \<Rightarrow> (bytes \<times> coin) list \<Rightarrow> coin_pair_search" where
  "search_coins amt usable =
     fold (\<lambda>(k, c) s. process_coin_for_combine_search s c) usable (CoinPairSearch amt)"

definition compute_combine_action :: "int \<Rightarrow> (bytes \<times> coin) list \<Rightarrow> coin list option" where
  "compute_combine_action amt usable =
     (let searcher = search_coins amt usable
      in if total searcher \<ge> amt then Some (max_coins searcher) else None)"

text \<open>
  What holds of a search after the coins \<open>P\<close> have been processed: the total is the sum of
  the kept coins, they are kept in descending order of amount and are among \<open>P\<close>, dropping
  the last kept coin falls short of the target, and either nothing was dropped or the
  target is covered.
\<close>

definition search_inv :: "coin_pair_search \<Rightarrow> coin list \<Rightarrow> bool" where
  "search_inv s P \<longleftrightarrow>
     total s = sum_list (map amount (max_coins s)) \<and>
     sorted_wrt (\<lambda>a b. amount b \<le> amount a) (max_coins s) \<and>
     mset (max_coins s) \<subseteq># mset P \<and>
     (max_coins s \<noteq> [] \<longrightarrow> total s - amount (last (max_coins s)) < target s) \<and>
     (total s = sum_list (map amount P) \<or> target s \<le> total s) \<and>
     total s \<le> sum_list (map amount P)"


section \<open>Wallet, Network and the ledger service\<close>

text \<open>
  A \<open>Wallet\<close> object. \<open>w_name\<close>, \<open>w_pk\<close>, \<open>w_sk\<close>, \<open>w_puzzle\<close> and \<open>w_puzzle_hash\<close> are
  the fields \<open>name\<close>, \<open>pk_\<close>, \<open>sk_\<close>, \<open>puzzle\<close> and \<open>puzzle_hash\<close> (renamed apart from the
  coin's field and from names the term language refuses); \<open>usable_coins\<close> is the
  dictionary from coin name to coin, in insertion order. The field \<open>parent\<close> is the one
  network of the session.
\<close>

record wallet =
  w_name :: string
  w_pk :: bytes
  w_sk :: bytes
  usable_coins :: "(bytes \<times> coin) list"
  w_puzzle :: program
  w_puzzle_hash :: bytes

record contract_wrapper =
  genesis_challenge :: bytes
  cw_source :: program

text \<open>
  The simulator (\<open>SpendSim\<close> with its \<open>SimClient\<close>) is the external ledger service; its
  operations are parameters over a state type \<open>'sim\<close>. \<open>sim_push_tx\<close> is
  \<open>SimClient.push_tx\<close>: the second component of its answer is \<open>None\<close> when the error is
  falsy and \<open>Some (str error)\<close> otherwise. \<open>sim_farm_block\<close> is \<open>SpendSim.farm_block\<close> and
  answers the additions and removals of the block; \<open>sim_timestamp\<close> reads
  \<open>SpendSim.timestamp\<close> (seconds) and \<open>sim_pass_time\<close> is \<open>SpendSim.pass_time\<close>.
\<close>

record 'sim ledger =
  sim_push_tx :: "'sim \<Rightarrow> spend_bundle \<Rightarrow> string option \<times> 'sim"
  sim_farm_block :: "'sim \<Rightarrow> bytes \<Rightarrow> (coin list \<times> coin list) \<times> 'sim"
  get_coin_records_by_puzzle_hash :: "'sim \<Rightarrow> bytes \<Rightarrow> coin_record list"
  sim_timestamp :: "'sim \<Rightarrow> int"
  sim_pass_time :: "'sim \<Rightarrow> int \<Rightarrow> 'sim"

text \<open>
  A \<open>Network\<close>. Wallet objects live in \<open>heap\<close> and are referred to by address, since the
  network and the caller share them; \<open>wallets\<close> is the dictionary from \<open>str(pk)\<close> to the
  wallet, \<open>nobody\<close> the default farmer. \<open>time\<close> and every duration are
  \<open>datetime.timedelta\<close> values, counted in microseconds.
\<close>

record 'sim network =
  time :: int
  sim :: 'sim
  wallets :: "(string \<times> nat) list"
  nobody :: nat
  heap :: "nat \<Rightarrow> wallet"

text \<open>The dictionary \<open>push_tx\<close> returns: \<open>{'error': ...}\<close> or \<open>{'additions': ..., 'removals': ...}\<close>.\<close>

datatype push_result = Error_result string | Farmed_result "coin list" "coin list"

record spend_result =
  result :: push_result
  error :: "string option"
  outputs :: "coin list"

definition SpendResult :: "push_result \<Rightarrow> spend_result" where
  "SpendResult res =
     (case res of
        Error_result e \<Rightarrow> \<lparr>result = res, error = Some e, outputs = []\<rparr>
      | Farmed_result additions removals \<Rightarrow> \<lparr>result = res, error = None, outputs = additions\<rparr>)"

definition CoinWrapper :: "bytes \<Rightarrow> bytes \<Rightarrow> int \<Rightarrow> program \<Rightarrow> coin_wrapper" where
  "CoinWrapper parent ph amt src =
     \<lparr>parent_coin_info = parent, puzzle_hash = ph, amount = amt, source = src\<rparr>"

definition as_coin :: "coin_wrapper \<Rightarrow> coin" where
  "as_coin c = \<lparr>parent_coin_info = parent_coin_info c, puzzle_hash = puzzle_hash c, amount = amount c\<rparr>"

text \<open>\<open>CoinWrapper.create_standard_spend(priv, conditions)\<close>: the spend and its signature.\<close>

definition create_standard_spend ::
  "crypto \<Rightarrow> coin_wrapper \<Rightarrow> bytes \<Rightarrow> condition list \<Rightarrow> coin_solution \<times> bytes" where
  "create_standard_spend C c priv conditions =
     (CoinSolution (as_coin c) (source c) (StandardSolution conditions),
      sign C (synthetic_sk C priv)
        (delegated_tree_hash C conditions @ coin_name C (as_coin c) @ additional_data C))"

text \<open>\<open>ContractWrapper.custom_coin(parent, amt)\<close>.\<close>

definition custom_coin :: "crypto \<Rightarrow> contract_wrapper \<Rightarrow> coin \<Rightarrow> int \<Rightarrow> coin_wrapper" where
  "custom_coin C cw parent amt =
     CoinWrapper (coin_name C parent) (get_tree_hash C (cw_source cw)) amt (cw_source cw)"

definition add_coin :: "crypto \<Rightarrow> wallet \<Rightarrow> coin \<Rightarrow> wallet" where
  "add_coin C w c = w\<lparr>usable_coins := AList.update (coin_name C c) c (usable_coins w)\<rparr>"

definition clear_coins :: "wallet \<Rightarrow> wallet" where
  "clear_coins w = w\<lparr>usable_coins := []\<rparr>"

definition balance :: "wallet \<Rightarrow> int" where
  "balance w = sum_list (map (amount \<circ> snd) (usable_coins w))"

subsection \<open>Network.farm_block, push_tx, skip_time\<close>

text \<open>\<open>datetime.timedelta(block_time)\<close>, 18.75 seconds.\<close>

definition farm_duration :: int where
  "farm_duration = 18750000"

text \<open>The inner loop of \<open>farm_block\<close> for one wallet: every unspent record's coin is added.\<close>

definition add_unspent :: "crypto \<Rightarrow> coin_record list \<Rightarrow> wallet \<Rightarrow> wallet" where
  "add_unspent C coin_records w =
     fold (\<lambda>r w. if spent r = False then add_coin C w (cr_coin r) else w) coin_records w"

text \<open>
  The coins of the unspent records of a query, in order, and the dictionary that adding
  them one by one to an empty dictionary gives.
\<close>

definition unspent_coins :: "coin_record list \<Rightarrow> coin list" where
  "unspent_coins coin_records = map cr_coin (filter (\<lambda>r. spent r = False) coin_records)"

definition coin_dict :: "crypto \<Rightarrow> coin list \<Rightarrow> (bytes \<times> coin) list" where
  "coin_dict C cs = fold (\<lambda>c d. AList.update (coin_name C c) c d) cs []"

definition farm_block ::
  "crypto \<Rightarrow> 'sim ledger \<Rightarrow> 'sim network \<Rightarrow> nat option \<Rightarrow> (coin list \<times> coin list) \<times> 'sim network" where
  "farm_block C L net farmer_kw =
     (let farmer = (case farmer_kw of None \<Rightarrow> nobody net | Some f \<Rightarrow> f);
          (farmed, sim1) = sim_farm_block L (sim net) (w_puzzle_hash (heap net farmer));
          heap1 = fold (\<lambda>(k, w) h. h(w := clear_coins (h w))) (wallets net) (heap net);
          heap2 = fold (\<lambda>(kw, w) h. h(w := add_unspent C
                     (get_coin_records_by_puzzle_hash L sim1 (w_puzzle_hash (h w))) (h w)))
                    (wallets net) heap1
      in (farmed, net\<lparr>time := time net + farm_duration, sim := sim1, heap := heap2\<rparr>))"

definition push_tx ::
  "crypto \<Rightarrow> 'sim ledger \<Rightarrow> 'sim network \<Rightarrow> spend_bundle \<Rightarrow> push_result \<times> 'sim network" where
  "push_tx C L net bundle =
     (case sim_push_tx L (sim net) bundle of
        (Some err, sim1) \<Rightarrow> (Error_result err, net\<lparr>sim := sim1\<rparr>)
      | (None, sim1) \<Rightarrow>
          (let ((additions, removals), net1) = farm_block C L (net\<lparr>sim := sim1\<rparr>) None
           in (Farmed_result additions removals, net1)))"

definition get_timestamp :: "'sim ledger \<Rightarrow> 'sim network \<Rightarrow> int" where
  "get_timestamp L net = sim_timestamp L (sim net) * 1000000"

text \<open>
  The body of \<open>skip_time\<close>'s loop, and the loop. The loop has no bound of its own, so it is a
  partial function: \<open>None\<close> is the loop that never ends.
\<close>

definition skip_step :: "crypto \<Rightarrow> 'sim ledger \<Rightarrow> nat option \<Rightarrow> 'sim network \<Rightarrow> 'sim network" where
  "skip_step C L farmer_kw net =
     (let (farmed, net1) = farm_block C L net farmer_kw
      in net1\<lparr>sim := sim_pass_time L (sim net1) 20\<rparr>)"

partial_function (option) skip_loop ::
  "crypto \<Rightarrow> 'sim ledger \<Rightarrow> nat option \<Rightarrow> int \<Rightarrow> 'sim network \<Rightarrow> 'sim network option" where
  "skip_loop C L farmer_kw target_time net =
     (if target_time > get_timestamp L net
      then skip_loop C L farmer_kw target_time (skip_step C L farmer_kw net)
      else Some net)"

text \<open>
  \<open>skip_time(target_duration, **kwargs)\<close>. The argument \<open>duration\<close> is the value of
  \<open>datetime.timedelta(pytimeparse.parse(target_duration) / duration_div)\<close>, in
  microseconds: parsing the string and the floating-point division are left to the caller.
\<close>

declare skip_loop.simps [code]

definition skip_time ::
  "crypto \<Rightarrow> 'sim ledger \<Rightarrow> 'sim network \<Rightarrow> int \<Rightarrow> nat option \<Rightarrow> 'sim network option" where
  "skip_time C L net duration farmer_kw =
     (let target_time = time net + duration in skip_loop C L farmer_kw target_time net)"


section \<open>Wallet operations\<close>

subsection \<open>combine_coins\<close>

text \<open>
  The spend bundle \<open>combine_coins\<close> builds from a non-empty list of coins: \<open>coins[-1]\<close> is
  \<open>last coins\<close> and \<open>coins[:-1]\<close> is \<open>butlast coins\<close>.
\<close>

definition combine_final_coin :: "crypto \<Rightarrow> wallet \<Rightarrow> coin_wrapper list \<Rightarrow> coin_wrapper" where
  "combine_final_coin C w coins =
     CoinWrapper (coin_name C (as_coin (last coins))) (w_puzzle_hash w)
       (sum_list (map amount coins)) (w_puzzle w)"

definition combine_spend_bundle :: "crypto \<Rightarrow> wallet \<Rightarrow> coin_wrapper list \<Rightarrow> spend_bundle" where
  "combine_spend_bundle C w coins =
     (let final_coin = combine_final_coin C w coins;
          announce_conditions =
            [ASSERT_COIN_ANNOUNCEMENT
               (std_hash C (coin_name C (as_coin (last coins)) @ coin_name C (as_coin final_coin)))];
          spends = map (\<lambda>c. create_standard_spend C c (w_sk w) announce_conditions) (butlast coins);
          final_coin_creation =
            [CREATE_COIN_ANNOUNCEMENT (coin_name C (as_coin final_coin)),
             CREATE_COIN (w_puzzle_hash w) (amount final_coin)];
          final_spend = create_standard_spend C (last coins) (w_sk w) final_coin_creation;
          destroyed_coin_solutions = map fst spends @ [fst final_spend];
          signatures = map snd spends @ [snd final_spend]
      in SpendBundle destroyed_coin_solutions (aggregate C signatures))"

text \<open>
  \<open>combine_coins(coins)\<close> on the wallet at address \<open>self\<close>. An exception is the left
  summand, and the network as the exception leaves it is returned with it. An empty list
  fails at \<open>coins[-1]\<close>; the two \<open>assert\<close>s follow the push.
\<close>

definition combine_coins ::
  "crypto \<Rightarrow> 'sim ledger \<Rightarrow> 'sim network \<Rightarrow> nat \<Rightarrow> coin_wrapper list
     \<Rightarrow> (py_error + spend_result) \<times> 'sim network" where
  "combine_coins C L net self coins =
     (let beginning_balance = balance (heap net self);
          beginning_coins = int (length (usable_coins (heap net self)))
      in if coins = [] then (Inl IndexError, net)
         else
           (let (pushed, net1) = push_tx C L net (combine_spend_bundle C (heap net self) coins)
            in if beginning_balance \<noteq> balance (heap net1 self) then (Inl AssertionError, net1)
               else if int (length (usable_coins (heap net1 self)))
                         \<noteq> beginning_coins - (int (length coins) - 1)
                    then (Inl AssertionError, net1)
                    else (Inr (SpendResult pushed), net1)))"

lemma combine_coins_shrinks:
  assumes "combine_coins C L net self coins = (Inr res, net1)" and "length coins \<noteq> 1"
  shows "length (usable_coins (heap net1 self)) < length (usable_coins (heap net self))"
proof -
  have ne: "coins \<noteq> []"
    using assms(1) by (auto simp: combine_coins_def)
  then have "length coins \<noteq> 0" by simp
  then have "2 \<le> length coins"
    using assms(2) by linarith
  moreover have "int (length (usable_coins (heap net1 self)))
      = int (length (usable_coins (heap net self))) - (int (length coins) - 1)"
    using assms(1) ne
    by (auto simp: combine_coins_def Let_def split: prod.splits if_splits)
  ultimately show ?thesis by linarith
qed

subsection \<open>choose_coin\<close>

text \<open>
  \<open>choose_coin(amt)\<close>. The result of \<open>combine_coins\<close> is a \<open>SpendResult\<close> object, never
  \<open>None\<close>, so the test \<open>result is None\<close> does not fire. The recursion ends because a
  combine of other than one coin that returns has shrunk the wallet's dictionary.
\<close>

function choose_coin ::
  "crypto \<Rightarrow> 'sim ledger \<Rightarrow> 'sim network \<Rightarrow> nat \<Rightarrow> int \<Rightarrow> (py_error + coin option) \<times> 'sim network" where
  "choose_coin C L net self amt =
     (let start_balance = balance (heap net self)
      in case compute_combine_action amt (usable_coins (heap net self)) of
           None \<Rightarrow> (Inr None, net)
         | Some coins_to_spend \<Rightarrow>
             if length coins_to_spend = 1 then (Inr (Some (coins_to_spend ! 0)), net)
             else
               (case combine_coins C L net self
                       (map (\<lambda>x. CoinWrapper (parent_coin_info x) (puzzle_hash x) (amount x)
                                    (w_puzzle (heap net self)))
                          coins_to_spend) of
                  (Inl e, net1) \<Rightarrow> (Inl e, net1)
                | (Inr res, net1) \<Rightarrow>
                    if balance (heap net1 self) = start_balance
                    then choose_coin C L net1 self amt
                    else (Inl AssertionError, net1)))"
  by pat_completeness auto
termination
proof (relation "measure (\<lambda>(C, L, net, self, amt). length (usable_coins (heap net self)))")
  show "wf (measure (\<lambda>(C, L, net, self, amt). length (usable_coins (heap net self))))"
    by simp
next
  fix C :: crypto and L :: "'sim ledger" and net net1 :: "'sim network" and self :: nat
    and amt :: int and coins_to_spend r res
  assume "length coins_to_spend \<noteq> 1"
    and "(r, net1) = combine_coins C L net self
                 (map (\<lambda>x. CoinWrapper (parent_coin_info x) (puzzle_hash x) (amount x)
                              (w_puzzle (heap net self)))
                    coins_to_spend)"
    and "r = Inr res"
  then have "combine_coins C L net self
                 (map (\<lambda>x. CoinWrapper (parent_coin_info x) (puzzle_hash x) (amount x)
                              (w_puzzle (heap net self)))
                    coins_to_spend) = (Inr res, net1)"
    and "length (map (\<lambda>x. CoinWrapper (parent_coin_info x) (puzzle_hash x) (amount x)
                              (w_puzzle (heap net self)))
                    coins_to_spend) \<noteq> 1"
    by simp_all
  then have "length (usable_coins (heap net1 self)) < length (usable_coins (heap net self))"
    by (rule combine_coins_shrinks)
  then show "((C, L, net1, self, amt), (C, L, net, self, amt))
      \<in> measure (\<lambda>(C, L, net, self, amt). length (usable_coins (heap net self)))"
    by simp
qed

declare choose_coin.simps [simp del]


subsection \<open>launch_contract\<close>

text \<open>
  The spend bundle of \<open>launch_contract\<close> for the funding coin \<open>found_coin\<close>, and
  \<open>launch_contract(source, **kwargs)\<close> itself; \<open>amt_kw\<close> is the keyword argument \<open>amt\<close>.
\<close>

definition launch_conditions :: "crypto \<Rightarrow> wallet \<Rightarrow> contract_wrapper \<Rightarrow> coin \<Rightarrow> int \<Rightarrow> condition list" where
  "launch_conditions C w cw found_coin amt =
     [CREATE_COIN (get_tree_hash C (cw_source cw)) amt]
     @ (if amt < amount found_coin
        then [CREATE_COIN (w_puzzle_hash w) (amount found_coin - amt)]
        else [])"

definition launch_spend_bundle :: "crypto \<Rightarrow> wallet \<Rightarrow> contract_wrapper \<Rightarrow> coin \<Rightarrow> int \<Rightarrow> spend_bundle" where
  "launch_spend_bundle C w cw found_coin amt =
     (let condition_args = launch_conditions C w cw found_coin amt;
          signature = sign C (synthetic_sk C (w_sk w))
            (delegated_tree_hash C condition_args @ coin_name C found_coin @ additional_data C)
      in SpendBundle [CoinSolution found_coin (w_puzzle w) (StandardSolution condition_args)]
           signature)"

definition launch_contract ::
  "crypto \<Rightarrow> 'sim ledger \<Rightarrow> 'sim network \<Rightarrow> nat \<Rightarrow> program \<Rightarrow> int option
     \<Rightarrow> (py_error + coin_wrapper option) \<times> 'sim network" where
  "launch_contract C L net self src amt_kw =
     (let amt = (case amt_kw of None \<Rightarrow> 1 | Some a \<Rightarrow> a)
      in case choose_coin C L net self amt of
           (Inl e, net1) \<Rightarrow> (Inl e, net1)
         | (Inr None, net1) \<Rightarrow> (Inl (ValueError_no_coin amt), net1)
         | (Inr (Some found_coin), net1) \<Rightarrow>
             (let cw = \<lparr>genesis_challenge = genesis_challenge_default C, cw_source = src\<rparr>;
                  (pushed, net2) =
                    push_tx C L net1 (launch_spend_bundle C (heap net1 self) cw found_coin amt)
              in case pushed of
                   Farmed_result additions removals \<Rightarrow>
                     (Inr (Some (custom_coin C cw found_coin amt)), net2)
                 | Error_result err \<Rightarrow> (Inr None, net2)))"

text \<open>\<open>give_chia(target, amt)\<close>: \<open>target\<close> is the wallet at that address.\<close>

definition give_chia ::
  "crypto \<Rightarrow> 'sim ledger \<Rightarrow> 'sim network \<Rightarrow> nat \<Rightarrow> nat \<Rightarrow> int
     \<Rightarrow> (py_error + coin_wrapper option) \<times> 'sim network" where
  "give_chia C L net self tgt amt = launch_contract C L net self (w_puzzle (heap net tgt)) (Some amt)"

subsection \<open>spend_coin\<close>

text \<open>
  The keyword arguments of \<open>spend_coin\<close>. \<open>to\<close> is a wallet; \<open>remain\<close> is a contract, a
  wallet, or any other object.
\<close>

datatype remainer = RemainContract contract_wrapper | RemainWallet nat | RemainOther

record spend_kwargs =
  kw_amt :: "int option"
  kw_to :: "nat option"
  kw_remain :: "remainer option"
  kw_args :: "program option"

definition spend_solution ::
  "crypto \<Rightarrow> 'sim network \<Rightarrow> nat \<Rightarrow> coin_wrapper \<Rightarrow> spend_kwargs \<Rightarrow> py_error + solution" where
  "spend_solution C net self c kw =
     (let amt = (case kw_amt kw of None \<Rightarrow> 1 | Some a \<Rightarrow> a)
      in case kw_args kw of
           None \<Rightarrow>
             (let target_puzzle_hash =
                    (case kw_to kw of
                       None \<Rightarrow> w_puzzle_hash (heap net self)
                     | Some t \<Rightarrow> w_puzzle_hash (heap net t));
                  solution_list = [CREATE_COIN target_puzzle_hash amt]
              in case kw_remain kw of
                   None \<Rightarrow> Inr (StandardSolution solution_list)
                 | Some rem \<Rightarrow>
                     (let remain_amt = amount c - amt
                      in case rem of
                           RemainContract cw \<Rightarrow>
                             Inr (StandardSolution (solution_list
                               @ [CREATE_COIN (get_tree_hash C (cw_source cw)) remain_amt]))
                         | RemainWallet r \<Rightarrow>
                             Inr (StandardSolution (solution_list
                               @ [CREATE_COIN (w_puzzle_hash (heap net r)) remain_amt]))
                         | RemainOther \<Rightarrow> Inl ValueError_remainer))
         | Some args \<Rightarrow> Inr (ArgsSolution args))"

definition spend_coin ::
  "crypto \<Rightarrow> 'sim ledger \<Rightarrow> 'sim network \<Rightarrow> nat \<Rightarrow> coin_wrapper \<Rightarrow> spend_kwargs
     \<Rightarrow> (py_error + spend_result) \<times> 'sim network" where
  "spend_coin C L net self c kw =
     (case spend_solution C net self c kw of
        Inl e \<Rightarrow> (Inl e, net)
      | Inr sol \<Rightarrow>
          (case sign_coin_solutions C [CoinSolution (as_coin c) (source c) sol]
                  (w_pk (heap net self)) (w_sk (heap net self)) of
             Inl e \<Rightarrow> (Inl e, net)
           | Inr spend_bundle \<Rightarrow>
               (let (pushed, net1) = push_tx C L net spend_bundle
                in (Inr (SpendResult pushed), net1))))"


section \<open>A small ledger to run the model on\<close>

text \<open>
  A concrete simulator and concrete helpers, on which the operations above are evaluated.
  A bundle is accepted when every coin it spends is an unspent record; the next block
  spends those coins, creates the coins of the \<open>CREATE_COIN\<close> conditions and a reward coin
  for the farmer. Names and hashes are readable strings.
\<close>

record toy_sim =
  ts_records :: "coin_record list"
  ts_mempool :: "spend_bundle list"
  ts_timestamp :: int
  ts_height :: nat

definition toy_name :: "coin \<Rightarrow> bytes" where
  "toy_name c = parent_coin_info c @ ''/'' @ puzzle_hash c @ ''/'' @ replicate (nat (amount c)) CHR ''i''"

definition toy_crypto :: crypto where
  "toy_crypto =
     \<lparr>coin_name = toy_name,
      std_hash = (\<lambda>b. ''#'' @ b),
      get_tree_hash = (\<lambda>p. ''h'' @ p),
      delegated_tree_hash = (\<lambda>cs. ''d''),
      synthetic_sk = (\<lambda>k. ''s'' @ k),
      sign = (\<lambda>k m. k @ '':'' @ m),
      aggregate = concat,
      additional_data = ''+'',
      genesis_challenge_default = ''g'',
      sign_coin_solutions = (\<lambda>sols pk sk. Inr (SpendBundle sols sk))\<rparr>"

fun spent_coin :: "coin_solution \<Rightarrow> coin" where
  "spent_coin (CoinSolution c p sol) = c"

fun created_coins :: "coin_solution \<Rightarrow> coin list" where
  "created_coins (CoinSolution c p (StandardSolution conds)) =
     concat (map (\<lambda>cond. case cond of
                     CREATE_COIN ph amt \<Rightarrow> [\<lparr>parent_coin_info = toy_name c, puzzle_hash = ph, amount = amt\<rparr>]
                   | _ \<Rightarrow> []) conds)"
| "created_coins (CoinSolution c p (ArgsSolution args)) = []"

definition toy_push_tx :: "toy_sim \<Rightarrow> spend_bundle \<Rightarrow> string option \<times> toy_sim" where
  "toy_push_tx s b =
     (if list_all (\<lambda>sol. \<lparr>cr_coin = spent_coin sol, spent = False\<rparr> \<in> set (ts_records s))
           (bundle_spends b)
      then (None, s\<lparr>ts_mempool := ts_mempool s @ [b]\<rparr>)
      else (Some ''UNKNOWN_UNSPENT'', s))"

definition toy_farm_block :: "toy_sim \<Rightarrow> bytes \<Rightarrow> (coin list \<times> coin list) \<times> toy_sim" where
  "toy_farm_block s ph =
     (let sols = concat (map bundle_spends (ts_mempool s));
          removals = map spent_coin sols;
          additions = concat (map created_coins sols);
          reward = \<lparr>parent_coin_info = replicate (ts_height s) CHR ''b'', puzzle_hash = ph, amount = 2\<rparr>;
          records = map (\<lambda>r. if cr_coin r \<in> set removals then r\<lparr>spent := True\<rparr> else r) (ts_records s)
                    @ map (\<lambda>c. \<lparr>cr_coin = c, spent = False\<rparr>) (reward # additions)
      in ((additions, removals),
          s\<lparr>ts_records := records, ts_mempool := [], ts_height := Suc (ts_height s)\<rparr>))"

definition toy_ledger :: "toy_sim ledger" where
  "toy_ledger =
     \<lparr>sim_push_tx = toy_push_tx,
      sim_farm_block = toy_farm_block,
      get_coin_records_by_puzzle_hash = (\<lambda>s ph. filter (\<lambda>r. puzzle_hash (cr_coin r) = ph) (ts_records s)),
      sim_timestamp = ts_timestamp,
      sim_pass_time = (\<lambda>s n. s\<lparr>ts_timestamp := ts_timestamp s + n\<rparr>)\<rparr>"

text \<open>The same ledger, except that it rejects every bundle.\<close>

definition rejecting_ledger :: "toy_sim ledger" where
  "rejecting_ledger = toy_ledger\<lparr>sim_push_tx := (\<lambda>s b. (Some ''REJECTED'', s))\<rparr>"

text \<open>
  Two wallets: \<open>nobody\<close> at address 0 and \<open>alice\<close> at address \<open>alice\<close>; \<open>toy_network coins\<close> is a
  session in which \<open>alice\<close> holds the given coins, all unspent on the ledger.
\<close>

definition alice :: nat where
  "alice = 1"

definition toy_wallet :: "string \<Rightarrow> wallet" where
  "toy_wallet n =
     \<lparr>w_name = n, w_pk = ''P'' @ n, w_sk = ''S'' @ n, usable_coins = [],
      w_puzzle = n, w_puzzle_hash = ''h'' @ n\<rparr>"

definition alice_coin :: "string \<Rightarrow> int \<Rightarrow> coin" where
  "alice_coin parent amt = \<lparr>parent_coin_info = parent, puzzle_hash = ''hA'', amount = amt\<rparr>"

definition three_tens :: "coin list" where
  "three_tens = [alice_coin ''x'' 10, alice_coin ''y'' 10, alice_coin ''z'' 10]"

definition toy_network :: "coin list \<Rightarrow> toy_sim network" where
  "toy_network coins =
     \<lparr>time = 0,
      sim = \<lparr>ts_records = map (\<lambda>c. \<lparr>cr_coin = c, spent = False\<rparr>) coins, ts_mempool = [],
             ts_timestamp = 1, ts_height = 0\<rparr>,
      wallets = [(''PN'', 0), (''PA'', alice)],
      nobody = 0,
      heap = (\<lambda>a. if a = alice
                   then (toy_wallet ''A'')\<lparr>usable_coins := map (\<lambda>c. (toy_name c, c)) coins\<rparr>
                   else toy_wallet ''N'')\<rparr>"


text \<open>Her three coins of 10, wrapped as \<open>choose_coin\<close> wraps them.\<close>

definition three_wrapped :: "coin_wrapper list" where
  "three_wrapped =
     map (\<lambda>x. CoinWrapper (parent_coin_info x) (puzzle_hash x) (amount x) ''A'') three_tens"

text \<open>Keyword arguments asking for 7 out of a coin, the remainder going to \<open>nobody\<close>.\<close>

definition overspend_kwargs :: spend_kwargs where
  "overspend_kwargs = \<lparr>kw_amt = Some 7, kw_to = None, kw_remain = Some (RemainWallet 0), kw_args = None\<rparr>"

text \<open>
  A session whose ledger has moved on without \<open>alice\<close>: her coin \<open>x\<close> is spent, and two coins
  she did not create are locked to her puzzle hash.
\<close>

definition busy_sim :: toy_sim where
  "busy_sim =
     \<lparr>ts_records =
        [\<lparr>cr_coin = alice_coin ''x'' 10, spent = True\<rparr>,
         \<lparr>cr_coin = alice_coin ''y'' 4, spent = False\<rparr>,
         \<lparr>cr_coin = \<lparr>parent_coin_info = ''y'', puzzle_hash = ''hN'', amount = 1\<rparr>, spent = False\<rparr>,
         \<lparr>cr_coin = alice_coin ''z'' 6, spent = False\<rparr>],
      ts_mempool = [], ts_timestamp = 1, ts_height = 3\<rparr>"

definition stale_network :: "toy_sim network" where
  "stale_network = (toy_network [alice_coin ''x'' 10])\<lparr>sim := busy_sim\<rparr>"

section \<open>The coin selector\<close>

lemma sum_butlast: "xs \<noteq> [] \<Longrightarrow> sum_list (map f (butlast xs)) = sum_list (map f xs) - (f (last xs) :: int)"
  by (induction xs) auto

lemma evict_target: "target (evict s) = target s"
  by (induction s rule: evict.induct) (subst evict.simps, simp)

lemma evict_total: "total s = sum_list (map amount (max_coins s)) \<Longrightarrow>
   total (evict s) = sum_list (map amount (max_coins (evict s)))"
proof (induction s rule: evict.induct)
  case (1 s)
  show ?case
  proof (cases "max_coins s \<noteq> [] \<and> total s - amount (last (max_coins s)) \<ge> target s")
    case True
    then have "evict s = evict (s\<lparr>total := total s - amount (last (max_coins s)),
                    max_coins := butlast (max_coins s)\<rparr>)" by (subst evict.simps) simp
    moreover have "total (evict (s\<lparr>total := total s - amount (last (max_coins s)),
                    max_coins := butlast (max_coins s)\<rparr>)) = sum_list (map amount (max_coins (evict (s\<lparr>total := total s - amount (last (max_coins s)),
                    max_coins := butlast (max_coins s)\<rparr>))))"
      using True "1.prems" by (intro "1.IH") (simp_all add: sum_butlast)
    ultimately show ?thesis by simp
  next
    case False
    then have "evict s = s" by (subst evict.simps) auto
    then show ?thesis using "1.prems" by simp
  qed
qed

lemma evict_prefix: "\<exists>n. max_coins (evict s) = take n (max_coins s)"
proof (induction s rule: evict.induct)
  case (1 s)
  show ?case
  proof (cases "max_coins s \<noteq> [] \<and> total s - amount (last (max_coins s)) \<ge> target s")
    case True
    then have e: "evict s = evict (s\<lparr>total := total s - amount (last (max_coins s)),
                    max_coins := butlast (max_coins s)\<rparr>)" by (subst evict.simps) simp
    from "1.IH"[OF True] obtain n where "max_coins (evict s) = take n (butlast (max_coins s))"
      using e by auto
    then have "max_coins (evict s) = take (min n (length (max_coins s) - 1)) (max_coins s)"
      by (simp add: butlast_conv_take min.commute)
    then show ?thesis by blast
  next
    case False
    then have "evict s = s" by (subst evict.simps) auto
    then have "max_coins (evict s) = take (length (max_coins s)) (max_coins s)" by simp
    then show ?thesis by blast
  qed
qed

lemma evict_minimal: "max_coins (evict s) \<noteq> [] \<Longrightarrow>
   total (evict s) - amount (last (max_coins (evict s))) < target s"
proof (induction s rule: evict.induct)
  case (1 s)
  show ?case
  proof (cases "max_coins s \<noteq> [] \<and> total s - amount (last (max_coins s)) \<ge> target s")
    case True
    then have e: "evict s = evict (s\<lparr>total := total s - amount (last (max_coins s)),
                    max_coins := butlast (max_coins s)\<rparr>)" by (subst evict.simps) simp
    show ?thesis using "1.IH"[OF True] "1.prems" e by simp
  next
    case False
    then have "evict s = s" by (subst evict.simps) auto
    then show ?thesis using False "1.prems" by auto
  qed
qed

lemma evict_covers: "total (evict s) = total s \<and> max_coins (evict s) = max_coins s \<or> target s \<le> total (evict s)"
proof (induction s rule: evict.induct)
  case (1 s)
  show ?case
  proof (cases "max_coins s \<noteq> [] \<and> total s - amount (last (max_coins s)) \<ge> target s")
    case True
    then have e: "evict s = evict (s\<lparr>total := total s - amount (last (max_coins s)),
                    max_coins := butlast (max_coins s)\<rparr>)" by (subst evict.simps) simp
    show ?thesis using "1.IH"[OF True] True e by auto
  next
    case False
    then have "evict s = s" by (subst evict.simps) auto
    then show ?thesis by simp
  qed
qed

lemma evict_le: "\<forall>c\<in>set (max_coins s). 0 \<le> amount c \<Longrightarrow> total (evict s) \<le> total s"
proof (induction s rule: evict.induct)
  case (1 s)
  show ?case
  proof (cases "max_coins s \<noteq> [] \<and> total s - amount (last (max_coins s)) \<ge> target s")
    case True
    then have e: "evict s = evict (s\<lparr>total := total s - amount (last (max_coins s)),
                    max_coins := butlast (max_coins s)\<rparr>)" by (subst evict.simps) simp
    have "\<forall>c\<in>set (butlast (max_coins s)). 0 \<le> amount c" using "1.prems" by (meson in_set_butlastD)
    then have "total (evict s) \<le> total s - amount (last (max_coins s))"
      using "1.IH"[OF True] e by simp
    moreover have "0 \<le> amount (last (max_coins s))" using True "1.prems" by simp
    ultimately show ?thesis by linarith
  next
    case False
    then have "evict s = s" by (subst evict.simps) auto
    then show ?thesis by simp
  qed
qed


lemma insort_sum: "sum_list (map amount (insort_coin xs c)) = sum_list (map amount xs) + amount c"
  by (induction xs) auto

lemma insort_mset: "mset (insort_coin xs c) = add_mset c (mset xs)"
  by (induction xs) auto

lemma insort_set: "set (insort_coin xs c) = insert c (set xs)"
  by (induction xs) auto

lemma insort_sorted: "sorted_wrt (\<lambda>a b. amount b \<le> amount a) xs \<Longrightarrow>
    sorted_wrt (\<lambda>a b. amount b \<le> amount a) (insort_coin xs c)"
  by (induction xs) (auto simp: insort_set)

lemma insort_nonempty: "insort_coin xs c \<noteq> []"
  by (cases xs) auto

lemma process_inv:
  assumes inv: "search_inv s P" and pos: "0 < target s" and nn: "\<forall>x\<in>set P. 0 \<le> amount x" and c: "0 \<le> amount c"
  shows "search_inv (process_coin_for_combine_search s c) (P @ [c])"
    and "target (process_coin_for_combine_search s c) = target s"
proof -
  let ?s' = "process_coin_for_combine_search s c"
  show tg: "target ?s' = target s"
    by (simp add: process_coin_for_combine_search_def Let_def evict_target)
  show "search_inv ?s' (P @ [c])"
  proof (cases "max_coins s = []")
    case True
    then have s': "?s' = s\<lparr>total := total s + amount c, max_coins := [c]\<rparr>"
      by (simp add: process_coin_for_combine_search_def Let_def)
    have t0: "total s = 0" using inv True by (simp add: search_inv_def)
    have "0 \<le> sum_list (map amount P)" using nn by (intro sum_list_nonneg) auto
    then show ?thesis using inv pos c t0 unfolding s' search_inv_def by auto
  next
    case False
    define s1 where "s1 = s\<lparr>total := total s + amount c, max_coins := insort_coin (max_coins s) c\<rparr>"
    have s': "?s' = evict s1"
      using False by (simp add: process_coin_for_combine_search_def Let_def s1_def)
    have t1: "total s1 = sum_list (map amount (max_coins s1))"
      using inv by (simp add: s1_def search_inv_def insort_sum)
    have tg1: "target s1 = target s" by (simp add: s1_def)
    have sorted1: "sorted_wrt (\<lambda>a b. amount b \<le> amount a) (max_coins s1)"
      using inv by (simp add: s1_def search_inv_def insort_sorted)
    have sub1: "mset (max_coins s1) \<subseteq># mset (P @ [c])"
      using inv by (simp add: s1_def search_inv_def insort_mset)
    obtain n where n: "max_coins (evict s1) = take n (max_coins s1)"
      using evict_prefix by blast
    have i1: "total (evict s1) = sum_list (map amount (max_coins (evict s1)))"
      using t1 by (rule evict_total)
    have i2: "sorted_wrt (\<lambda>a b. amount b \<le> amount a) (max_coins (evict s1))"
      unfolding n using sorted1 by (rule sorted_wrt_take)
    have "mset (take n (max_coins s1)) \<subseteq># mset (max_coins s1)"
      by (metis append_take_drop_id mset_append mset_subset_eq_add_left)
    then have i3: "mset (max_coins (evict s1)) \<subseteq># mset (P @ [c])"
      unfolding n using sub1 by (rule subset_mset.order_trans)
    have i4: "max_coins (evict s1) \<noteq> [] \<longrightarrow>
        total (evict s1) - amount (last (max_coins (evict s1))) < target (evict s1)"
      using evict_minimal[of s1] by (simp add: evict_target)
    have all1: "\<forall>x\<in>set (max_coins s1). 0 \<le> amount x"
    proof
      fix x assume "x \<in> set (max_coins s1)"
      then have "x \<in> set (P @ [c])" using sub1 by (meson mset_subset_eqD in_multiset_in_set)
      then show "0 \<le> amount x" using nn c by auto
    qed
    have le1: "total (evict s1) \<le> total s1" using all1 by (rule evict_le)
    have ts1: "total s1 = total s + amount c" by (simp add: s1_def)
    have i6: "total (evict s1) \<le> sum_list (map amount (P @ [c]))"
      using le1 ts1 inv by (simp add: search_inv_def)
    have i5: "total (evict s1) = sum_list (map amount (P @ [c])) \<or> target (evict s1) \<le> total (evict s1)"
      using evict_covers[of s1]
    proof
      assume "total (evict s1) = total s1 \<and> max_coins (evict s1) = max_coins s1"
      then have e: "total (evict s1) = total s + amount c" using ts1 by auto
      from inv have "total s = sum_list (map amount P) \<or> target s \<le> total s"
        unfolding search_inv_def by blast
      then show ?thesis using e c by (auto simp: evict_target tg1)
    next
      assume "target s1 \<le> total (evict s1)"
      then show ?thesis by (simp add: evict_target)
    qed
    show ?thesis unfolding s' search_inv_def using i1 i2 i3 i4 i5 i6 by blast
  qed
qed


lemma search_fold_inv:
  assumes "search_inv s P" and "0 < target s" and "\<forall>x\<in>set P. 0 \<le> amount x"
    and "\<forall>x\<in>set xs. 0 \<le> amount (snd x)"
  shows "search_inv (fold (\<lambda>(k, c) s. process_coin_for_combine_search s c) xs s) (P @ map snd xs)
     \<and> target (fold (\<lambda>(k, c) s. process_coin_for_combine_search s c) xs s) = target s"
  using assms
proof (induction xs arbitrary: s P)
  case Nil
  then show ?case by simp
next
  case (Cons x xs)
  obtain k c where x: "x = (k, c)" by (cases x)
  have c: "0 \<le> amount c" using Cons.prems(4) x by simp
  have 1: "search_inv (process_coin_for_combine_search s c) (P @ [c])"
    and 2: "target (process_coin_for_combine_search s c) = target s"
    using process_inv[OF Cons.prems(1,2,3) c] by auto
  have 3: "\<forall>x\<in>set (P @ [c]). 0 \<le> amount x" using Cons.prems(3) c by auto
  have 4: "\<forall>x\<in>set xs. 0 \<le> amount (snd x)" using Cons.prems(4) by simp
  have 5: "0 < target (process_coin_for_combine_search s c)" using 2 Cons.prems(2) by simp
  from Cons.IH[OF 1 5 3 4] show ?case using 2 x by simp
qed

lemma search_coins_inv:
  assumes "0 < amt" and "\<forall>x\<in>set usable. 0 \<le> amount (snd x)"
  shows "search_inv (search_coins amt usable) (map snd usable)"
    and "target (search_coins amt usable) = amt"
proof -
  have "search_inv (CoinPairSearch amt) []" by (simp add: search_inv_def CoinPairSearch_def)
  moreover have "0 < target (CoinPairSearch amt)" using assms(1) by (simp add: CoinPairSearch_def)
  ultimately have "search_inv (search_coins amt usable) ([] @ map snd usable)
     \<and> target (search_coins amt usable) = target (CoinPairSearch amt)"
    unfolding search_coins_def using assms(2) by (intro search_fold_inv) simp_all
  then show "search_inv (search_coins amt usable) (map snd usable)"
    and "target (search_coins amt usable) = amt" by (simp_all add: CoinPairSearch_def)
qed

lemma sorted_desc_last_le:
  "sorted_wrt (\<lambda>a b. amount b \<le> amount a) xs \<Longrightarrow> c \<in> set xs \<Longrightarrow> amount (last xs) \<le> amount c"
  by (induction xs) auto

text \<open>
  C2 (amended). For a positive target and candidate coins of non-negative amounts: when the
  candidates' total covers the target, \<open>compute_combine_action\<close> returns a non-empty
  selection drawn from the candidates whose total covers the target, and removing any
  coin of smallest amount from it falls below the target; when the candidates' total is
  below the target, it returns \<open>None\<close>.
\<close>

theorem selector_greedy_minimal:
  assumes "0 < amt" and "\<forall>x\<in>set usable. 0 \<le> amount (snd x)"
  shows "(amt \<le> sum_list (map (amount \<circ> snd) usable) \<longrightarrow>
           (\<exists>sel. compute_combine_action amt usable = Some sel \<and> sel \<noteq> [] \<and>
                  mset sel \<subseteq># mset (map snd usable) \<and>
                  amt \<le> sum_list (map amount sel) \<and>
                  (\<forall>c\<in>set sel. (\<forall>d\<in>set sel. amount c \<le> amount d) \<longrightarrow>
                       sum_list (map amount sel) - amount c < amt))) \<and>
         (sum_list (map (amount \<circ> snd) usable) < amt \<longrightarrow> compute_combine_action amt usable = None)"
proof -
  let ?s = "search_coins amt usable"
  have inv: "search_inv ?s (map snd usable)" and tg: "target ?s = amt"
    using search_coins_inv[OF assms] by auto
  have tot: "total ?s = sum_list (map amount (max_coins ?s))"
    and srt: "sorted_wrt (\<lambda>a b. amount b \<le> amount a) (max_coins ?s)"
    and sub: "mset (max_coins ?s) \<subseteq># mset (map snd usable)"
    and mn: "max_coins ?s \<noteq> [] \<longrightarrow> total ?s - amount (last (max_coins ?s)) < amt"
    and cov: "total ?s = sum_list (map amount (map snd usable)) \<or> amt \<le> total ?s"
    and le: "total ?s \<le> sum_list (map amount (map snd usable))"
    using inv tg unfolding search_inv_def by auto
  have feasible: "\<exists>sel. compute_combine_action amt usable = Some sel \<and> sel \<noteq> [] \<and>
                  mset sel \<subseteq># mset (map snd usable) \<and>
                  amt \<le> sum_list (map amount sel) \<and>
                  (\<forall>c\<in>set sel. (\<forall>d\<in>set sel. amount c \<le> amount d) \<longrightarrow>
                       sum_list (map amount sel) - amount c < amt)"
    if a: "amt \<le> sum_list (map (amount \<circ> snd) usable)"
  proof -
    have ge: "amt \<le> total ?s" using cov a by auto
    then have r: "compute_combine_action amt usable = Some (max_coins ?s)"
      by (simp add: compute_combine_action_def Let_def)
    have ne: "max_coins ?s \<noteq> []" using ge tot assms(1) by auto
    have "sum_list (map amount (max_coins ?s)) - amount c < amt"
      if c: "c \<in> set (max_coins ?s)" and m: "\<forall>d\<in>set (max_coins ?s). amount c \<le> amount d" for c
    proof -
      have "amount (last (max_coins ?s)) \<le> amount c" using srt c by (rule sorted_desc_last_le)
      moreover have "amount c \<le> amount (last (max_coins ?s))" using m ne by simp
      ultimately show ?thesis using mn ne tot by simp
    qed
    then show ?thesis using r ne sub ge tot by auto
  qed
  have infeasible: "compute_combine_action amt usable = None"
    if "sum_list (map (amount \<circ> snd) usable) < amt"
    using that le by (simp add: compute_combine_action_def Let_def)
  show ?thesis using feasible infeasible by blast
qed


theorem selector_greedy_minimal_witness:
  "(\<exists>sel. compute_combine_action 25 (map (\<lambda>c. (toy_name c, c)) three_tens) = Some sel \<and>
          sel \<noteq> [] \<and> 25 \<le> sum_list (map amount sel)) \<and>
   compute_combine_action 31 (map (\<lambda>c. (toy_name c, c)) three_tens) = None"
proof -
  let ?U = "map (\<lambda>c. (toy_name c, c)) three_tens"
  have nn: "\<forall>x\<in>set ?U. 0 \<le> amount (snd x)"
    by (simp add: three_tens_def alice_coin_def)
  have tot: "sum_list (map (amount \<circ> snd) ?U) = 30"
    by (simp add: three_tens_def alice_coin_def)
  have p25: "(0::int) < 25" and p31: "(0::int) < 31" by simp_all
  from selector_greedy_minimal[OF p25 nn] selector_greedy_minimal[OF p31 nn] tot
  show ?thesis by auto
qed

text \<open>
  C2 as stated fails for a target of zero: the first coin is kept without running the
  eviction loop, so one coin of amount 5 is selected although removing it leaves a total
  of 0, which is not below the target 0.
\<close>

theorem selector_zero_target_counterexample:
  "compute_combine_action 0 [(''a'', alice_coin ''x'' 5)] = Some [alice_coin ''x'' 5] \<and>
   0 \<le> sum_list (map (amount \<circ> snd) [(''a'', alice_coin ''x'' 5)]) \<and>
   \<not> (sum_list (map amount [alice_coin ''x'' 5]) - amount (alice_coin ''x'' 5) < 0)"
  by (simp add: compute_combine_action_def search_coins_def process_coin_for_combine_search_def
      CoinPairSearch_def alice_coin_def)

section \<open>combine_coins\<close>

lemma combine_bundle_spends:
  "bundle_spends (combine_spend_bundle C w coins) =
     map (\<lambda>c. CoinSolution (as_coin c) (source c)
           (StandardSolution [ASSERT_COIN_ANNOUNCEMENT
               (std_hash C (coin_name C (as_coin (last coins))
                  @ coin_name C (as_coin (combine_final_coin C w coins))))])) (butlast coins)
     @ [CoinSolution (as_coin (last coins)) (source (last coins))
          (StandardSolution
             [CREATE_COIN_ANNOUNCEMENT (coin_name C (as_coin (combine_final_coin C w coins))),
              CREATE_COIN (w_puzzle_hash w) (amount (combine_final_coin C w coins))])]"
  by (simp add: combine_spend_bundle_def Let_def create_standard_spend_def comp_def)

lemma combine_bundle_signature:
  "bundle_signature (combine_spend_bundle C w coins) =
     aggregate C
      (map (\<lambda>c. sign C (synthetic_sk C (w_sk w))
              (delegated_tree_hash C [ASSERT_COIN_ANNOUNCEMENT
               (std_hash C (coin_name C (as_coin (last coins))
                  @ coin_name C (as_coin (combine_final_coin C w coins))))]
               @ coin_name C (as_coin c) @ additional_data C)) (butlast coins)
       @ [sign C (synthetic_sk C (w_sk w))
              (delegated_tree_hash C
                 [CREATE_COIN_ANNOUNCEMENT (coin_name C (as_coin (combine_final_coin C w coins))),
                  CREATE_COIN (w_puzzle_hash w) (amount (combine_final_coin C w coins))]
               @ coin_name C (as_coin (last coins)) @ additional_data C)])"
  by (simp add: combine_spend_bundle_def Let_def create_standard_spend_def comp_def)

lemma combine_coins_pushes:
  assumes "coins \<noteq> []"
  shows "snd (combine_coins C L net self coins)
           = snd (push_tx C L net (combine_spend_bundle C (heap net self) coins))"
    and "fst (combine_coins C L net self coins) = Inl AssertionError \<or>
         fst (combine_coins C L net self coins)
           = Inr (SpendResult (fst (push_tx C L net (combine_spend_bundle C (heap net self) coins))))"
  using assms by (auto simp: combine_coins_def Let_def split: prod.splits)

lemma combine_bundle_length:
  "coins \<noteq> [] \<Longrightarrow> length (bundle_spends (combine_spend_bundle C w coins)) = length coins"
  by (simp add: combine_bundle_spends)

lemma combine_bundle_nth_assert:
  "i + 1 < length coins \<Longrightarrow>
     bundle_spends (combine_spend_bundle C w coins) ! i =
       CoinSolution (as_coin (coins ! i)) (source (coins ! i))
         (StandardSolution [ASSERT_COIN_ANNOUNCEMENT
             (std_hash C (coin_name C (as_coin (last coins))
                @ coin_name C (as_coin (combine_final_coin C w coins))))])"
proof -
  assume a: "i + 1 < length coins"
  then have "i < length (butlast coins)" by simp
  then show ?thesis
    by (simp add: combine_bundle_spends nth_append nth_butlast)
qed

lemma combine_bundle_nth_last:
  "coins \<noteq> [] \<Longrightarrow>
     bundle_spends (combine_spend_bundle C w coins) ! (length coins - 1) =
       CoinSolution (as_coin (last coins)) (source (last coins))
         (StandardSolution
            [CREATE_COIN_ANNOUNCEMENT (coin_name C (as_coin (combine_final_coin C w coins))),
             CREATE_COIN (w_puzzle_hash w) (sum_list (map amount coins))])"
  by (simp add: combine_bundle_spends nth_append combine_final_coin_def CoinWrapper_def)

text \<open>
  C1. For a non-empty list of coins, \<open>combine_coins\<close> builds a bundle with one spend per
  coin. The merged coin is the wallet's coin whose parent is the last input's name and
  whose amount is the sum of the inputs. Every spend but the last carries the single
  condition \<open>ASSERT_COIN_ANNOUNCEMENT\<close> of the hash of the last input's name followed by
  the merged coin's name; the last spend carries \<open>CREATE_COIN_ANNOUNCEMENT\<close> of the merged
  coin's name and \<open>CREATE_COIN\<close> of the summed amount to the wallet's puzzle hash. The
  bundle's signature is the aggregate of one signature per coin, and the network after
  \<open>combine_coins\<close> is the network after one \<open>push_tx\<close> of this bundle.
\<close>

theorem combine_coins_bundle:
  assumes "coins \<noteq> []"
  shows
    "(let w = heap net self;
          final_coin = combine_final_coin C w coins;
          bundle = combine_spend_bundle C w coins;
          last_id = coin_name C (as_coin (last coins));
          final_id = coin_name C (as_coin final_coin)
      in final_coin = CoinWrapper last_id (w_puzzle_hash w) (sum_list (map amount coins)) (w_puzzle w) \<and>
         length (bundle_spends bundle) = length coins \<and>
         (\<forall>i. i + 1 < length coins \<longrightarrow>
            bundle_spends bundle ! i =
              CoinSolution (as_coin (coins ! i)) (source (coins ! i))
                (StandardSolution [ASSERT_COIN_ANNOUNCEMENT (std_hash C (last_id @ final_id))])) \<and>
         bundle_spends bundle ! (length coins - 1) =
              CoinSolution (as_coin (last coins)) (source (last coins))
                (StandardSolution [CREATE_COIN_ANNOUNCEMENT final_id,
                                   CREATE_COIN (w_puzzle_hash w) (sum_list (map amount coins))]) \<and>
         bundle_signature bundle =
           aggregate C
             (map (\<lambda>c. sign C (synthetic_sk C (w_sk w))
                     (delegated_tree_hash C
                        [ASSERT_COIN_ANNOUNCEMENT (std_hash C (last_id @ final_id))]
                      @ coin_name C (as_coin c) @ additional_data C))
                (butlast coins)
              @ [sign C (synthetic_sk C (w_sk w))
                   (delegated_tree_hash C
                      [CREATE_COIN_ANNOUNCEMENT final_id,
                       CREATE_COIN (w_puzzle_hash w) (sum_list (map amount coins))]
                    @ coin_name C (as_coin (last coins)) @ additional_data C)]) \<and>
         snd (combine_coins C L net self coins) = snd (push_tx C L net bundle) \<and>
         (fst (combine_coins C L net self coins) = Inl AssertionError \<or>
          fst (combine_coins C L net self coins) = Inr (SpendResult (fst (push_tx C L net bundle)))))"
  unfolding Let_def
proof (intro conjI allI impI)
  show "combine_final_coin C (heap net self) coins =
      CoinWrapper (coin_name C (as_coin (last coins))) (w_puzzle_hash (heap net self))
        (sum_list (map amount coins)) (w_puzzle (heap net self))"
    by (simp add: combine_final_coin_def)
  show "length (bundle_spends (combine_spend_bundle C (heap net self) coins)) = length coins"
    using assms by (rule combine_bundle_length)
  show "bundle_spends (combine_spend_bundle C (heap net self) coins) ! i =
      CoinSolution (as_coin (coins ! i)) (source (coins ! i))
        (StandardSolution [ASSERT_COIN_ANNOUNCEMENT
           (std_hash C (coin_name C (as_coin (last coins))
              @ coin_name C (as_coin (combine_final_coin C (heap net self) coins))))])"
    if "i + 1 < length coins" for i
    using that by (rule combine_bundle_nth_assert)
  show "bundle_spends (combine_spend_bundle C (heap net self) coins) ! (length coins - 1) =
      CoinSolution (as_coin (last coins)) (source (last coins))
        (StandardSolution
           [CREATE_COIN_ANNOUNCEMENT
              (coin_name C (as_coin (combine_final_coin C (heap net self) coins))),
            CREATE_COIN (w_puzzle_hash (heap net self)) (sum_list (map amount coins))])"
    using assms by (rule combine_bundle_nth_last)
  show "bundle_signature (combine_spend_bundle C (heap net self) coins) =
      aggregate C
        (map (\<lambda>c. sign C (synthetic_sk C (w_sk (heap net self)))
                (delegated_tree_hash C
                   [ASSERT_COIN_ANNOUNCEMENT
                      (std_hash C (coin_name C (as_coin (last coins))
                         @ coin_name C (as_coin (combine_final_coin C (heap net self) coins))))]
                 @ coin_name C (as_coin c) @ additional_data C))
           (butlast coins)
         @ [sign C (synthetic_sk C (w_sk (heap net self)))
              (delegated_tree_hash C
                 [CREATE_COIN_ANNOUNCEMENT
                    (coin_name C (as_coin (combine_final_coin C (heap net self) coins))),
                  CREATE_COIN (w_puzzle_hash (heap net self)) (sum_list (map amount coins))]
               @ coin_name C (as_coin (last coins)) @ additional_data C)])"
    by (simp add: combine_bundle_signature combine_final_coin_def CoinWrapper_def)
  show "snd (combine_coins C L net self coins)
      = snd (push_tx C L net (combine_spend_bundle C (heap net self) coins))"
    using assms by (rule combine_coins_pushes(1))
  show "fst (combine_coins C L net self coins) = Inl AssertionError \<or>
      fst (combine_coins C L net self coins)
        = Inr (SpendResult (fst (push_tx C L net (combine_spend_bundle C (heap net self) coins))))"
    using assms by (rule combine_coins_pushes(2))
qed

theorem combine_coins_bundle_witness:
  "length (bundle_spends (combine_spend_bundle toy_crypto (heap (toy_network three_tens) alice) three_wrapped)) = 3 \<and>
   bundle_spends (combine_spend_bundle toy_crypto (heap (toy_network three_tens) alice) three_wrapped) ! 0
     = CoinSolution (alice_coin ''x'' 10) ''A''
         (StandardSolution [ASSERT_COIN_ANNOUNCEMENT
            (''#'' @ toy_name (alice_coin ''z'' 10) @ toy_name (alice_coin (toy_name (alice_coin ''z'' 10)) 30))]) \<and>
   bundle_spends (combine_spend_bundle toy_crypto (heap (toy_network three_tens) alice) three_wrapped) ! 2
     = CoinSolution (alice_coin ''z'' 10) ''A''
         (StandardSolution [CREATE_COIN_ANNOUNCEMENT (toy_name (alice_coin (toy_name (alice_coin ''z'' 10)) 30)),
                            CREATE_COIN ''hA'' 30])"
proof -
  let ?w = "heap (toy_network three_tens) alice"
  let ?B = "combine_spend_bundle toy_crypto ?w three_wrapped"
  have ne: "three_wrapped \<noteq> []" by (simp add: three_wrapped_def three_tens_def)
  have len: "length three_wrapped = 3" by (simp add: three_wrapped_def three_tens_def)
  have ev: "as_coin (last three_wrapped) = alice_coin ''z'' 10" "source (last three_wrapped) = ''A''"
    "as_coin (three_wrapped ! 0) = alice_coin ''x'' 10" "source (three_wrapped ! 0) = ''A''"
    "sum_list (map amount three_wrapped) = 30"
    by (simp_all add: three_wrapped_def three_tens_def alice_coin_def CoinWrapper_def as_coin_def)
  have w: "w_puzzle_hash ?w = ''hA''" "w_puzzle ?w = ''A''"
    by (simp_all add: toy_network_def toy_wallet_def alice_def)
  have c: "coin_name toy_crypto = toy_name" "std_hash toy_crypto = (\<lambda>b. ''#'' @ b)"
    by (simp_all add: toy_crypto_def)
  have lst: "last three_wrapped = CoinWrapper ''z'' ''hA'' 10 ''A''"
    by (simp add: three_wrapped_def three_tens_def alice_coin_def)
  have fin: "as_coin (combine_final_coin toy_crypto ?w three_wrapped)
      = alice_coin (toy_name (alice_coin ''z'' 10)) 30"
    by (simp add: combine_final_coin_def ev(5) lst w c CoinWrapper_def as_coin_def alice_coin_def)
  note T = combine_coins_bundle[OF ne, where C = toy_crypto and net = "toy_network three_tens"
        and self = alice and L = toy_ledger, unfolded Let_def]
  from T have 1: "length (bundle_spends ?B) = length three_wrapped" by (elim conjE)
  from T have "\<forall>i. i + 1 < length three_wrapped \<longrightarrow>
            bundle_spends ?B ! i =
              CoinSolution (as_coin (three_wrapped ! i)) (source (three_wrapped ! i))
                (StandardSolution [ASSERT_COIN_ANNOUNCEMENT (std_hash toy_crypto (coin_name toy_crypto (as_coin (last three_wrapped)) @ coin_name toy_crypto (as_coin (combine_final_coin toy_crypto ?w three_wrapped))))])"
    by (elim conjE)
  then have 2: "bundle_spends ?B ! 0 =
              CoinSolution (as_coin (three_wrapped ! 0)) (source (three_wrapped ! 0))
                (StandardSolution [ASSERT_COIN_ANNOUNCEMENT (std_hash toy_crypto (coin_name toy_crypto (as_coin (last three_wrapped)) @ coin_name toy_crypto (as_coin (combine_final_coin toy_crypto ?w three_wrapped))))])"
    using len by simp
  from T have 3: "bundle_spends ?B ! (length three_wrapped - 1) =
              CoinSolution (as_coin (last three_wrapped)) (source (last three_wrapped))
                (StandardSolution [CREATE_COIN_ANNOUNCEMENT (coin_name toy_crypto (as_coin (combine_final_coin toy_crypto ?w three_wrapped))),
                                   CREATE_COIN (w_puzzle_hash ?w) (sum_list (map amount three_wrapped))])"
    by (elim conjE)
  show ?thesis using 1 2 3 by (simp add: len ev w c fin)
qed

section \<open>Balance and coin count across combine_coins\<close>

text \<open>
  C3. When \<open>combine_coins\<close> returns, the wallet's balance is its balance before the call
  and its number of coins has gone down by the number of inputs minus one: the two
  \<open>assert\<close>s after the push let no other outcome return.
\<close>

theorem combine_coins_balance_count:
  assumes "combine_coins C L net self coins = (Inr res, net1)"
  shows "balance (heap net1 self) = balance (heap net self) \<and>
         int (length (usable_coins (heap net1 self)))
           = int (length (usable_coins (heap net self))) - (int (length coins) - 1) \<and>
         length (usable_coins (heap net1 self)) + (length coins - 1)
           = length (usable_coins (heap net self))"
proof -
  have ne: "coins \<noteq> []"
    using assms by (auto simp: combine_coins_def)
  have b: "balance (heap net1 self) = balance (heap net self)"
    using assms ne by (auto simp: combine_coins_def Let_def split: prod.splits if_splits)
  have c: "int (length (usable_coins (heap net1 self)))
           = int (length (usable_coins (heap net self))) - (int (length coins) - 1)"
    using assms ne by (auto simp: combine_coins_def Let_def split: prod.splits if_splits)
  have "1 \<le> length coins" using ne by (cases coins) auto
  then have "length (usable_coins (heap net1 self)) + (length coins - 1)
           = length (usable_coins (heap net self))"
    using c by linarith
  then show ?thesis using b c by blast
qed

theorem combine_coins_balance_count_witness:
  "(\<exists>res. fst (combine_coins toy_crypto toy_ledger (toy_network three_tens) alice three_wrapped) = Inr res) \<and>
   length three_wrapped = 3 \<and>
   balance (heap (toy_network three_tens) alice) = 30 \<and>
   length (usable_coins (heap (toy_network three_tens) alice)) = 3 \<and>
   balance (heap (snd (combine_coins toy_crypto toy_ledger (toy_network three_tens) alice three_wrapped)) alice) = 30 \<and>
   length (usable_coins (heap (snd (combine_coins toy_crypto toy_ledger (toy_network three_tens) alice three_wrapped)) alice)) = 1"
proof -
  let ?r = "combine_coins toy_crypto toy_ledger (toy_network three_tens) alice three_wrapped"
  have r: "fst ?r = Inr (SpendResult (Farmed_result [alice_coin (toy_name (alice_coin ''z'' 10)) 30] three_tens))"
    by code_simp
  then have "?r = (Inr (SpendResult (Farmed_result [alice_coin (toy_name (alice_coin ''z'' 10)) 30] three_tens)), snd ?r)"
    by (simp add: prod_eq_iff)
  note T = combine_coins_balance_count[OF this]
  have b0: "balance (heap (toy_network three_tens) alice) = 30" by code_simp
  have l0: "length (usable_coins (heap (toy_network three_tens) alice)) = 3" by code_simp
  have l: "length three_wrapped = 3" by code_simp
  show ?thesis using T r b0 l0 l by simp
qed

section \<open>A rejected combine\<close>

lemma push_tx_rejected:
  assumes "sim_push_tx L (sim net) bundle = (Some err, sim1)"
  shows "push_tx C L net bundle = (Error_result err, net\<lparr>sim := sim1\<rparr>)"
  using assms by (simp add: push_tx_def)

lemma combine_coins_rejected:
  assumes "sim_push_tx L (sim net) (combine_spend_bundle C (heap net self) coins) = (Some err, sim1)"
    and "coins \<noteq> []"
  shows "combine_coins C L net self coins =
           (if length coins = 1 then Inr (SpendResult (Error_result err)) else Inl AssertionError,
            net\<lparr>sim := sim1\<rparr>)"
proof -
  have "length coins \<noteq> 0" using assms(2) by simp
  then show ?thesis
    using assms(2) by (simp add: combine_coins_def Let_def push_tx_rejected[OF assms(1)])
qed

text \<open>
  C4. A rejected push leaves the wallet's coins as they were, but \<open>combine_coins\<close> of two or
  more coins does not return the rejection: the second \<open>assert\<close> compares the unchanged
  number of coins with the number expected after a merge, and fails. Here the ledger
  rejects the combine of the three coins of 10.
\<close>

theorem combine_coins_rejected_raises:
  "fst (push_tx toy_crypto rejecting_ledger (toy_network three_tens)
          (combine_spend_bundle toy_crypto (heap (toy_network three_tens) alice) three_wrapped))
     = Error_result ''REJECTED'' \<and>
   fst (combine_coins toy_crypto rejecting_ledger (toy_network three_tens) alice three_wrapped)
     = Inl AssertionError \<and>
   usable_coins (heap (snd (combine_coins toy_crypto rejecting_ledger (toy_network three_tens) alice three_wrapped)) alice)
     = usable_coins (heap (toy_network three_tens) alice)"
proof -
  have p: "sim_push_tx rejecting_ledger (sim (toy_network three_tens))
             (combine_spend_bundle toy_crypto (heap (toy_network three_tens) alice) three_wrapped)
           = (Some ''REJECTED'', sim (toy_network three_tens))"
    by (simp add: rejecting_ledger_def)
  have ne: "three_wrapped \<noteq> []" and l: "length three_wrapped \<noteq> 1"
    by (simp_all add: three_wrapped_def three_tens_def)
  show ?thesis
    using combine_coins_rejected[OF p ne] push_tx_rejected[OF p, where C = toy_crypto] l
    by simp
qed

section \<open>choose_coin and launch_contract\<close>

lemma process_total_sum:
  assumes "total s = sum_list (map amount (max_coins s))"
  shows "total (process_coin_for_combine_search s c)
           = sum_list (map amount (max_coins (process_coin_for_combine_search s c)))"
proof (cases "max_coins s = []")
  case True
  then show ?thesis using assms by (simp add: process_coin_for_combine_search_def Let_def)
next
  case False
  have "total (evict (s\<lparr>total := total s + amount c, max_coins := insort_coin (max_coins s) c\<rparr>))
      = sum_list (map amount (max_coins (evict (s\<lparr>total := total s + amount c,
            max_coins := insort_coin (max_coins s) c\<rparr>))))"
    using assms by (intro evict_total) (simp add: insort_sum)
  then show ?thesis using False by (simp add: process_coin_for_combine_search_def Let_def)
qed

lemma fold_total_sum:
  "total s = sum_list (map amount (max_coins s)) \<Longrightarrow>
     total (fold (\<lambda>(k, c) s. process_coin_for_combine_search s c) xs s)
       = sum_list (map amount (max_coins (fold (\<lambda>(k, c) s. process_coin_for_combine_search s c) xs s)))"
proof (induction xs arbitrary: s)
  case Nil
  then show ?case by simp
next
  case (Cons x xs)
  obtain k c where x: "x = (k, c)" by (cases x)
  show ?case using Cons.IH[OF process_total_sum[OF Cons.prems, of c]] x by simp
qed

lemma selector_single_covers:
  assumes "compute_combine_action amt usable = Some cs" and "length cs = 1"
  shows "amt \<le> amount (cs ! 0)"
proof -
  have t: "total (search_coins amt usable) = sum_list (map amount (max_coins (search_coins amt usable)))"
    unfolding search_coins_def by (rule fold_total_sum) (simp add: CoinPairSearch_def)
  have cs: "cs = max_coins (search_coins amt usable)" and ge: "amt \<le> total (search_coins amt usable)"
    using assms(1) by (auto simp: compute_combine_action_def Let_def split: if_splits)
  obtain c where "cs = [c]" using assms(2) by (cases cs) auto
  then show ?thesis using t cs ge by simp
qed

lemma choose_coin_none_when_infeasible:
  assumes "compute_combine_action amt (usable_coins (heap net self)) = None"
  shows "choose_coin C L net self amt = (Inr None, net)"
  using assms by (subst choose_coin.simps) simp

lemma choose_coin_single:
  assumes "compute_combine_action amt (usable_coins (heap net self)) = Some cs" and "length cs = 1"
  shows "choose_coin C L net self amt = (Inr (Some (cs ! 0)), net)"
  using assms by (subst choose_coin.simps) simp

lemma choose_coin_sufficient:
  "choose_coin C L net self amt = (Inr (Some found_coin), net1) \<Longrightarrow> amt \<le> amount found_coin"
proof (induction C L net self amt rule: choose_coin.induct)
  case (1 C L net self amt)
  show ?case
  proof (cases "compute_combine_action amt (usable_coins (heap net self))")
    case None
    then show ?thesis using "1.prems" by (simp add: choose_coin_none_when_infeasible)
  next
    case (Some cs)
    show ?thesis
    proof (cases "length cs = 1")
      case True
      then have "choose_coin C L net self amt = (Inr (Some (cs ! 0)), net)"
        using Some by (subst choose_coin.simps) simp
      then show ?thesis using "1.prems" selector_single_covers[OF Some True] by simp
    next
      case False
      let ?cc = "combine_coins C L net self
                       (map (\<lambda>x. CoinWrapper (parent_coin_info x) (puzzle_hash x) (amount x)
                                    (w_puzzle (heap net self))) cs)"
      obtain r n where cc: "?cc = (r, n)" by (cases ?cc)
      show ?thesis
      proof (cases r)
        case (Inl e)
        then have "choose_coin C L net self amt = (Inl e, n)"
          using Some False cc by (subst choose_coin.simps) simp
        then show ?thesis using "1.prems" by simp
      next
        case (Inr res)
        show ?thesis
        proof (cases "balance (heap n self) = balance (heap net self)")
          case True
          then have "choose_coin C L net self amt = choose_coin C L n self amt"
            using Some False cc Inr by (subst choose_coin.simps) simp
          then have "choose_coin C L n self amt = (Inr (Some found_coin), net1)"
            using "1.prems" by simp
          then show ?thesis
            using "1.IH"[OF refl Some False cc[symmetric] Inr] True by simp
        next
          case F: False
          then have "choose_coin C L net self amt = (Inl AssertionError, n)"
            using Some False cc Inr by (subst choose_coin.simps) simp
          then show ?thesis using "1.prems" by simp
        qed
      qed
    qed
  qed
qed


lemma launch_contract_default_amount:
  "launch_contract C L net self src None = launch_contract C L net self src (Some 1)"
  by (simp add: launch_contract_def)

lemma launch_contract_no_coin:
  assumes "choose_coin C L net self amt = (Inr None, net1)"
  shows "launch_contract C L net self src (Some amt) = (Inl (ValueError_no_coin amt), net1)"
  using assms by (simp add: launch_contract_def)

lemma launch_contract_choose_raises:
  assumes "choose_coin C L net self amt = (Inl e, net1)"
  shows "launch_contract C L net self src (Some amt) = (Inl e, net1)"
  using assms by (simp add: launch_contract_def)

lemma launch_contract_found:
  assumes "choose_coin C L net self amt = (Inr (Some found_coin), net1)"
  shows "launch_contract C L net self src (Some amt) =
           (case push_tx C L net1
                   (launch_spend_bundle C (heap net1 self)
                      \<lparr>genesis_challenge = genesis_challenge_default C, cw_source = src\<rparr>
                      found_coin amt) of
              (Farmed_result additions removals, net2) \<Rightarrow>
                (Inr (Some (custom_coin C
                   \<lparr>genesis_challenge = genesis_challenge_default C, cw_source = src\<rparr>
                   found_coin amt)), net2)
            | (Error_result err, net2) \<Rightarrow> (Inr None, net2))"
  using assms by (simp add: launch_contract_def Let_def split: prod.splits push_result.splits)

text \<open>
  C5 (amended). When the selector reports infeasibility, \<open>choose_coin\<close> returns \<open>None\<close> as a
  normal value and leaves the network as it was; the error is raised one level up, by
  \<open>launch_contract\<close>, as a \<open>ValueError\<close>.
\<close>

theorem choose_coin_infeasible:
  assumes "compute_combine_action amt (usable_coins (heap net self)) = None"
  shows "choose_coin C L net self amt = (Inr None, net) \<and>
         launch_contract C L net self src (Some amt) = (Inl (ValueError_no_coin amt), net)"
  using choose_coin_none_when_infeasible[OF assms] launch_contract_no_coin by blast

theorem choose_coin_infeasible_witness:
  "compute_combine_action 31 (usable_coins (heap (toy_network three_tens) alice)) = None \<and>
   fst (choose_coin toy_crypto toy_ledger (toy_network three_tens) alice 31) = Inr None \<and>
   fst (launch_contract toy_crypto toy_ledger (toy_network three_tens) alice ''K'' (Some 31))
     = Inl (ValueError_no_coin 31)"
proof -
  have n: "compute_combine_action 31 (usable_coins (heap (toy_network three_tens) alice)) = None"
    by code_simp
  show ?thesis
    using n choose_coin_infeasible[OF n, where C = toy_crypto and L = toy_ledger and src = "''K''"]
    by simp
qed

text \<open>
  C5 as stated fails: with no coins and a requested amount of 1 the selector reports
  infeasibility and \<open>choose_coin\<close> returns \<open>None\<close>, not an error.
\<close>

theorem choose_coin_returns_none_counterexample:
  "compute_combine_action 1 (usable_coins (heap (toy_network []) alice)) = None \<and>
   fst (choose_coin toy_crypto toy_ledger (toy_network []) alice 1) = Inr None"
  by code_simp

lemma choose_coin_combine_rejected:
  assumes "compute_combine_action amt (usable_coins (heap net self)) = Some cs"
    and "2 \<le> length cs"
    and "sim_push_tx L (sim net)
           (combine_spend_bundle C (heap net self)
              (map (\<lambda>x. CoinWrapper (parent_coin_info x) (puzzle_hash x) (amount x)
                           (w_puzzle (heap net self))) cs))
         = (Some err, sim1)"
  shows "choose_coin C L net self amt = (Inl AssertionError, net\<lparr>sim := sim1\<rparr>)"
proof -
  let ?coins = "map (\<lambda>x. CoinWrapper (parent_coin_info x) (puzzle_hash x) (amount x)
                           (w_puzzle (heap net self))) cs"
  have ne: "?coins \<noteq> []" using assms(2) by auto
  have l: "length ?coins \<noteq> 1" "length cs \<noteq> 1" using assms(2) by auto
  have "combine_coins C L net self ?coins = (Inl AssertionError, net\<lparr>sim := sim1\<rparr>)"
    using combine_coins_rejected[OF assms(3) ne] l(1) by simp
  then show ?thesis
    using assms(1) l(2) by (subst choose_coin.simps) simp
qed

lemma launch_contract_combine_rejected:
  assumes "compute_combine_action amt (usable_coins (heap net self)) = Some cs"
    and "2 \<le> length cs"
    and "sim_push_tx L (sim net)
           (combine_spend_bundle C (heap net self)
              (map (\<lambda>x. CoinWrapper (parent_coin_info x) (puzzle_hash x) (amount x)
                           (w_puzzle (heap net self))) cs))
         = (Some err, sim1)"
  shows "launch_contract C L net self src (Some amt) = (Inl AssertionError, net\<lparr>sim := sim1\<rparr>)"
  using choose_coin_combine_rejected[OF assms] by (rule launch_contract_choose_raises)

text \<open>
  C6. \<open>launch_contract\<close> raises although a funding coin of sufficient value can be obtained:
  \<open>alice\<close> holds three coins of 10 and asks for 25. The selector covers the amount with the
  three coins, and on the accepting ledger \<open>launch_contract\<close> merges them and returns the
  contract coin of 25. On the ledger that rejects the merge, the \<open>AssertionError\<close> of
  \<open>combine_coins\<close> leaves \<open>choose_coin\<close> and \<open>launch_contract\<close>, where the rejection of a
  pushed transaction is otherwise answered with \<open>None\<close>.
\<close>

theorem launch_contract_rejected_combine_raises:
  "balance (heap (toy_network three_tens) alice) = 30 \<and>
   compute_combine_action 25 (usable_coins (heap (toy_network three_tens) alice)) = Some three_tens \<and>
   fst (launch_contract toy_crypto toy_ledger (toy_network three_tens) alice ''K'' (Some 25))
     = Inr (Some (CoinWrapper (toy_name (alice_coin (toy_name (alice_coin ''z'' 10)) 30)) ''hK'' 25 ''K'')) \<and>
   fst (launch_contract toy_crypto rejecting_ledger (toy_network three_tens) alice ''K'' (Some 25))
     = Inl AssertionError \<and>
   fst (launch_contract toy_crypto rejecting_ledger (toy_network [alice_coin ''x'' 30]) alice ''K'' (Some 25))
     = Inr None"
proof -
  let ?N = "toy_network three_tens"
  have b: "balance (heap ?N alice) = 30" by code_simp
  have sel: "compute_combine_action 25 (usable_coins (heap ?N alice)) = Some three_tens"
    by code_simp
  have ok: "fst (launch_contract toy_crypto toy_ledger ?N alice ''K'' (Some 25))
     = Inr (Some (CoinWrapper (toy_name (alice_coin (toy_name (alice_coin ''z'' 10)) 30)) ''hK'' 25 ''K''))"
    by code_simp
  have len: "2 \<le> length three_tens" by (simp add: three_tens_def)
  have rej: "sim_push_tx rejecting_ledger (sim ?N)
           (combine_spend_bundle toy_crypto (heap ?N alice)
              (map (\<lambda>x. CoinWrapper (parent_coin_info x) (puzzle_hash x) (amount x)
                           (w_puzzle (heap ?N alice))) three_tens))
         = (Some ''REJECTED'', sim ?N)"
    by (simp add: rejecting_ledger_def)
  have raised: "fst (launch_contract toy_crypto rejecting_ledger ?N alice ''K'' (Some 25)) = Inl AssertionError"
    using launch_contract_combine_rejected[OF sel len rej, of "''K''"] by simp
  have single: "fst (launch_contract toy_crypto rejecting_ledger (toy_network [alice_coin ''x'' 30]) alice ''K'' (Some 25))
     = Inr None"
    by code_simp
  show ?thesis using b sel ok raised single by simp
qed

section \<open>push_tx\<close>

lemma farm_block_effect:
  assumes "farm_block C L net farmer_kw = (farmed, net1)"
  shows "sim_farm_block L (sim net)
           (w_puzzle_hash (heap net (case farmer_kw of None \<Rightarrow> nobody net | Some f \<Rightarrow> f)))
           = (farmed, sim net1)"
    and "time net1 = time net + farm_duration"
    and "wallets net1 = wallets net"
    and "nobody net1 = nobody net"
  using assms by (auto simp: farm_block_def Let_def split: prod.splits)

lemma push_tx_accepted:
  assumes "sim_push_tx L (sim net) bundle = (None, sim1)"
  shows "\<exists>additions removals net1.
           push_tx C L net bundle = (Farmed_result additions removals, net1) \<and>
           farm_block C L (net\<lparr>sim := sim1\<rparr>) None = ((additions, removals), net1)"
proof -
  obtain additions removals net1 where
    f: "farm_block C L (net\<lparr>sim := sim1\<rparr>) None = ((additions, removals), net1)"
    by (metis surj_pair)
  then have "push_tx C L net bundle = (Farmed_result additions removals, net1)"
    using assms by (simp add: push_tx_def)
  then show ?thesis using f by blast
qed

text \<open>
  C7. \<open>push_tx\<close> is a total function into results, so a rejection is a value. When the
  ledger answers an error, the result is that error, the \<open>SpendResult\<close> made from it has no
  outputs, and the session's time and wallets are as before: no block was farmed. When
  the ledger accepts, the result carries the additions and removals of exactly one
  \<open>farm_block\<close> for \<open>nobody\<close>, run on the ledger state the push left, and the session's time
  has advanced by one block.
\<close>

theorem push_tx_result:
  "(\<forall>err sim1. sim_push_tx L (sim net) bundle = (Some err, sim1) \<longrightarrow>
      push_tx C L net bundle = (Error_result err, net\<lparr>sim := sim1\<rparr>) \<and>
      error (SpendResult (fst (push_tx C L net bundle))) = Some err \<and>
      outputs (SpendResult (fst (push_tx C L net bundle))) = [] \<and>
      time (snd (push_tx C L net bundle)) = time net \<and>
      heap (snd (push_tx C L net bundle)) = heap net) \<and>
   (\<forall>sim1. sim_push_tx L (sim net) bundle = (None, sim1) \<longrightarrow>
      (\<exists>additions removals net1.
          push_tx C L net bundle = (Farmed_result additions removals, net1) \<and>
          farm_block C L (net\<lparr>sim := sim1\<rparr>) None = ((additions, removals), net1) \<and>
          sim_farm_block L sim1 (w_puzzle_hash (heap net (nobody net)))
            = ((additions, removals), sim net1) \<and>
          time net1 = time net + farm_duration \<and>
          error (SpendResult (fst (push_tx C L net bundle))) = None \<and>
          outputs (SpendResult (fst (push_tx C L net bundle))) = additions))"
proof (intro conjI allI impI)
  fix err sim1
  assume a: "sim_push_tx L (sim net) bundle = (Some err, sim1)"
  note r = push_tx_rejected[OF a, of C]
  show "push_tx C L net bundle = (Error_result err, net\<lparr>sim := sim1\<rparr>)" by (rule r)
  show "error (SpendResult (fst (push_tx C L net bundle))) = Some err"
    by (simp add: r SpendResult_def)
  show "outputs (SpendResult (fst (push_tx C L net bundle))) = []"
    by (simp add: r SpendResult_def)
  show "time (snd (push_tx C L net bundle)) = time net" by (simp add: r)
  show "heap (snd (push_tx C L net bundle)) = heap net" by (simp add: r)
next
  fix sim1
  assume a: "sim_push_tx L (sim net) bundle = (None, sim1)"
  from push_tx_accepted[OF a, of C] obtain additions removals net1 where
    p: "push_tx C L net bundle = (Farmed_result additions removals, net1)" and
    f: "farm_block C L (net\<lparr>sim := sim1\<rparr>) None = ((additions, removals), net1)"
    by blast
  have s: "sim_farm_block L sim1 (w_puzzle_hash (heap net (nobody net)))
            = ((additions, removals), sim net1)"
    using farm_block_effect(1)[OF f] by simp
  have t: "time net1 = time net + farm_duration"
    using farm_block_effect(2)[OF f] by simp
  show "\<exists>additions removals net1.
          push_tx C L net bundle = (Farmed_result additions removals, net1) \<and>
          farm_block C L (net\<lparr>sim := sim1\<rparr>) None = ((additions, removals), net1) \<and>
          sim_farm_block L sim1 (w_puzzle_hash (heap net (nobody net)))
            = ((additions, removals), sim net1) \<and>
          time net1 = time net + farm_duration \<and>
          error (SpendResult (fst (push_tx C L net bundle))) = None \<and>
          outputs (SpendResult (fst (push_tx C L net bundle))) = additions"
    using p f s t by (intro exI[of _ additions] exI[of _ removals] exI[of _ net1])
      (simp add: SpendResult_def)
qed

theorem push_tx_result_witness:
  "fst (push_tx toy_crypto rejecting_ledger (toy_network three_tens)
          (combine_spend_bundle toy_crypto (heap (toy_network three_tens) alice) three_wrapped))
     = Error_result ''REJECTED'' \<and>
   time (snd (push_tx toy_crypto rejecting_ledger (toy_network three_tens)
          (combine_spend_bundle toy_crypto (heap (toy_network three_tens) alice) three_wrapped))) = 0 \<and>
   (\<exists>additions removals.
      fst (push_tx toy_crypto toy_ledger (toy_network three_tens)
          (combine_spend_bundle toy_crypto (heap (toy_network three_tens) alice) three_wrapped))
        = Farmed_result additions removals) \<and>
   time (snd (push_tx toy_crypto toy_ledger (toy_network three_tens)
          (combine_spend_bundle toy_crypto (heap (toy_network three_tens) alice) three_wrapped)))
     = farm_duration"
proof -
  let ?N = "toy_network three_tens"
  let ?B = "combine_spend_bundle toy_crypto (heap ?N alice) three_wrapped"
  have rej: "sim_push_tx rejecting_ledger (sim ?N) ?B = (Some ''REJECTED'', sim ?N)"
    by (simp add: rejecting_ledger_def)
  have t0: "time ?N = 0" by (simp add: toy_network_def)
  note R = push_tx_result[of rejecting_ledger ?N ?B toy_crypto,
      THEN conjunct1, rule_format, OF rej]
  have acc: "fst (sim_push_tx toy_ledger (sim ?N) ?B) = None" by code_simp
  then have "sim_push_tx toy_ledger (sim ?N) ?B = (None, snd (sim_push_tx toy_ledger (sim ?N) ?B))"
    by (simp add: prod_eq_iff)
  note A = push_tx_result[of toy_ledger ?N ?B toy_crypto,
      THEN conjunct2, rule_format, OF this]
  from A obtain additions removals net1 where
    a: "push_tx toy_crypto toy_ledger ?N ?B = (Farmed_result additions removals, net1)"
      "time net1 = time ?N + farm_duration"
    by blast
  show ?thesis using R a t0 by auto
qed

section \<open>spend_coin\<close>

lemma spend_solution_remainder:
  assumes "kw_args kw = None" and "kw_remain kw = Some rem" and "rem \<noteq> RemainOther"
  shows "spend_solution C net self c kw =
           Inr (StandardSolution
             [CREATE_COIN (case kw_to kw of None \<Rightarrow> w_puzzle_hash (heap net self)
                                          | Some t \<Rightarrow> w_puzzle_hash (heap net t))
                          (case kw_amt kw of None \<Rightarrow> 1 | Some a \<Rightarrow> a),
              CREATE_COIN (case rem of RemainContract cw \<Rightarrow> get_tree_hash C (cw_source cw)
                                     | RemainWallet r \<Rightarrow> w_puzzle_hash (heap net r)
                                     | RemainOther \<Rightarrow> [])
                          (amount c - (case kw_amt kw of None \<Rightarrow> 1 | Some a \<Rightarrow> a))])"
  using assms by (cases rem) (simp_all add: spend_solution_def Let_def)

text \<open>
  C10. With no \<open>args\<close> and a remainder recipient that is a wallet or a contract,
  \<open>spend_coin\<close> builds the two conditions \<open>CREATE_COIN\<close> of the amount and \<open>CREATE_COIN\<close> of
  \<open>coin.amount - amt\<close> without comparing \<open>amt\<close> with the coin's amount: the spend goes to
  \<open>sign_coin_solutions\<close> and the bundle that returns is pushed, whatever the amounts. When
  \<open>amt\<close> exceeds the coin's amount, the remainder amount is negative.
\<close>

theorem spend_coin_remainder_unchecked:
  assumes "kw_args kw = None" and "kw_remain kw = Some rem" and "rem \<noteq> RemainOther"
  shows
    "(let amt = (case kw_amt kw of None \<Rightarrow> 1 | Some a \<Rightarrow> a);
          target_puzzle_hash = (case kw_to kw of None \<Rightarrow> w_puzzle_hash (heap net self)
                                               | Some t \<Rightarrow> w_puzzle_hash (heap net t));
          remain_puzzle_hash = (case rem of RemainContract cw \<Rightarrow> get_tree_hash C (cw_source cw)
                                         | RemainWallet r \<Rightarrow> w_puzzle_hash (heap net r)
                                         | RemainOther \<Rightarrow> []);
          sol = StandardSolution [CREATE_COIN target_puzzle_hash amt,
                                  CREATE_COIN remain_puzzle_hash (amount c - amt)]
      in spend_solution C net self c kw = Inr sol \<and>
         spend_coin C L net self c kw =
           (case sign_coin_solutions C [CoinSolution (as_coin c) (source c) sol]
                   (w_pk (heap net self)) (w_sk (heap net self)) of
              Inl e \<Rightarrow> (Inl e, net)
            | Inr spend_bundle \<Rightarrow>
                (Inr (SpendResult (fst (push_tx C L net spend_bundle))),
                 snd (push_tx C L net spend_bundle))) \<and>
         (amount c < amt \<longrightarrow> amount c - amt < 0))"
  unfolding Let_def
  using spend_solution_remainder[OF assms, of C net self c]
  by (simp add: spend_coin_def Let_def split: sum.splits prod.splits)

theorem spend_coin_remainder_unchecked_witness:
  "spend_solution toy_crypto (toy_network [alice_coin ''x'' 5]) alice
       (CoinWrapper ''x'' ''hA'' 5 ''A'') overspend_kwargs
     = Inr (StandardSolution [CREATE_COIN ''hA'' 7, CREATE_COIN ''hN'' (- 2)]) \<and>
   fst (spend_coin toy_crypto toy_ledger (toy_network [alice_coin ''x'' 5]) alice
       (CoinWrapper ''x'' ''hA'' 5 ''A'') overspend_kwargs)
     = Inr (SpendResult (Farmed_result
         [\<lparr>parent_coin_info = toy_name (alice_coin ''x'' 5), puzzle_hash = ''hA'', amount = 7\<rparr>,
          \<lparr>parent_coin_info = toy_name (alice_coin ''x'' 5), puzzle_hash = ''hN'', amount = - 2\<rparr>]
         [alice_coin ''x'' 5]))"
proof -
  let ?N = "toy_network [alice_coin ''x'' 5]"
  let ?c = "CoinWrapper ''x'' ''hA'' 5 ''A''"
  have k: "kw_args overspend_kwargs = None" "kw_remain overspend_kwargs = Some (RemainWallet 0)"
    "RemainWallet 0 \<noteq> RemainOther"
    by (simp_all add: overspend_kwargs_def)
  note T = spend_coin_remainder_unchecked[OF k, where C = toy_crypto and net = ?N and self = alice
      and c = ?c and L = toy_ledger, unfolded Let_def]
  have ev: "kw_amt overspend_kwargs = Some 7" "kw_to overspend_kwargs = None"
    "w_puzzle_hash (heap ?N alice) = ''hA''" "w_puzzle_hash (heap ?N 0) = ''hN''"
    "amount ?c = 5"
    by (simp_all add: overspend_kwargs_def toy_network_def toy_wallet_def alice_def CoinWrapper_def)
  have 1: "spend_solution toy_crypto ?N alice ?c overspend_kwargs
     = Inr (StandardSolution [CREATE_COIN ''hA'' 7, CREATE_COIN ''hN'' (- 2)])"
    using T[THEN conjunct1] by (simp add: ev)
  have 2: "fst (spend_coin toy_crypto toy_ledger ?N alice ?c overspend_kwargs)
     = Inr (SpendResult (Farmed_result
         [\<lparr>parent_coin_info = toy_name (alice_coin ''x'' 5), puzzle_hash = ''hA'', amount = 7\<rparr>,
          \<lparr>parent_coin_info = toy_name (alice_coin ''x'' 5), puzzle_hash = ''hN'', amount = - 2\<rparr>]
         [alice_coin ''x'' 5]))"
    by code_simp
  show ?thesis using 1 2 by simp
qed

section \<open>farm_block\<close>

lemma add_unspent_fold:
  "add_unspent C rs w =
     w\<lparr>usable_coins := fold (\<lambda>c d. AList.update (coin_name C c) c d) (unspent_coins rs) (usable_coins w)\<rparr>"
proof (induction rs arbitrary: w)
  case Nil
  then show ?case by (simp add: add_unspent_def unspent_coins_def)
next
  case (Cons r rs)
  have "add_unspent C (r # rs) w = add_unspent C rs (if spent r = False then add_coin C w (cr_coin r) else w)"
    by (simp add: add_unspent_def)
  then show ?case by (simp add: Cons.IH unspent_coins_def add_coin_def)
qed

lemma fold_update_map_of:
  "map_of (fold (\<lambda>c d. AList.update (f c) c d) cs d)
     = map_of d ++ map_of (rev (map (\<lambda>c. (f c, c)) cs))"
proof (induction cs arbitrary: d)
  case Nil
  then show ?case by simp
next
  case (Cons c cs)
  show ?case
    by (rule ext) (simp add: Cons.IH update_conv' map_add_def split: option.splits)
qed

lemma fold_update_distinct:
  "distinct (map fst d) \<Longrightarrow> distinct (map fst (fold (\<lambda>c d. AList.update (f c) c d) cs d))"
  by (induction cs arbitrary: d) (simp_all add: distinct_update)

lemma fold_update_keys_kept:
  "f ` set cs \<subseteq> fst ` set d \<Longrightarrow> map fst (fold (\<lambda>c d. AList.update (f c) c d) cs d) = map fst d"
proof (induction cs arbitrary: d)
  case Nil
  then show ?case by simp
next
  case (Cons c cs)
  have k: "map fst (AList.update (f c) c d) = map fst d"
    using Cons.prems by (simp add: update_keys)
  have "fst ` set (AList.update (f c) c d) = set (map fst (AList.update (f c) c d))" by simp
  also have "\<dots> = fst ` set d" using k by simp
  finally have "f ` set cs \<subseteq> fst ` set (AList.update (f c) c d)"
    using Cons.prems by simp
  from Cons.IH[OF this] k show ?case by simp
qed

lemma fold_update_keys:
  "fst ` set (fold (\<lambda>c d. AList.update (f c) c d) cs d) = fst ` set d \<union> f ` set cs"
proof -
  have "dom (map_of (fold (\<lambda>c d. AList.update (f c) c d) cs d))
      = dom (map_of d) \<union> dom (map_of (rev (map (\<lambda>c. (f c, c)) cs)))"
    by (simp add: fold_update_map_of Un_commute)
  then show ?thesis
    by (simp add: dom_map_of_conv_image_fst image_image)
qed

lemma alist_eqI:
  "map fst xs = map fst ys \<Longrightarrow> map_of xs = map_of ys \<Longrightarrow> distinct (map fst xs) \<Longrightarrow> xs = ys"
proof (induction xs arbitrary: ys)
  case Nil
  then show ?case by simp
next
  case (Cons x xs)
  obtain y ys' where ys: "ys = y # ys'" using Cons.prems(1) by (cases ys) auto
  obtain k v where x: "x = (k, v)" by (cases x)
  obtain v' where y: "y = (k, v')" using Cons.prems(1) ys x by (cases y) auto
  have "map_of (x # xs) k = map_of ys k" using Cons.prems(2) by (rule fun_cong)
  then have v: "v = v'" using x y ys by simp
  have tl: "map fst xs = map fst ys'" using Cons.prems(1) ys by simp
  have kx: "k \<notin> fst ` set xs" using Cons.prems(3) x by simp
  have "fst ` set ys' = set (map fst ys')" by simp
  also have "\<dots> = set (map fst xs)" using tl by simp
  finally have ky: "k \<notin> fst ` set ys'" using kx by simp
  have "map_of xs = map_of ys'"
  proof (rule ext)
    fix z
    show "map_of xs z = map_of ys' z"
    proof (cases "z = k")
      case True
      then show ?thesis using kx ky by (simp add: map_of_eq_None_iff[THEN iffD2])
    next
      case False
      have "map_of (x # xs) z = map_of ys z" using Cons.prems(2) by (rule fun_cong)
      then show ?thesis using False x y ys by simp
    qed
  qed
  moreover have "distinct (map fst xs)" using Cons.prems(3) by simp
  ultimately have "xs = ys'" using tl by (intro Cons.IH)
  then show ?case using x y v ys by simp
qed

lemma coin_dict_idem:
  "fold (\<lambda>c d. AList.update (coin_name C c) c d) cs (coin_dict C cs) = coin_dict C cs"
proof (rule alist_eqI)
  let ?u = "\<lambda>c d. AList.update (coin_name C c) c d"
  have keys: "fst ` set (coin_dict C cs) = coin_name C ` set cs"
    by (simp add: coin_dict_def fold_update_keys)
  then show "map fst (fold ?u cs (coin_dict C cs)) = map fst (coin_dict C cs)"
    by (intro fold_update_keys_kept) simp
  show "map_of (fold ?u cs (coin_dict C cs)) = map_of (coin_dict C cs)"
    unfolding fold_update_map_of coin_dict_def
    by (rule ext) (simp add: map_add_def split: option.splits)
  have "distinct (map fst (coin_dict C cs))"
    unfolding coin_dict_def by (rule fold_update_distinct) simp
  then show "distinct (map fst (fold ?u cs (coin_dict C cs)))"
    by (rule fold_update_distinct)
qed


lemma clear_fold:
  "fold (\<lambda>(k, w) h. h(w := clear_coins (h w))) wl h a
     = (if a \<in> snd ` set wl then clear_coins (h a) else h a)"
proof (induction wl arbitrary: h)
  case Nil
  then show ?case by simp
next
  case (Cons x wl)
  obtain k w where x: "x = (k, w)" by (cases x)
  have "clear_coins (clear_coins (h w)) = clear_coins (h w)" by (simp add: clear_coins_def)
  then have "(h(w := clear_coins (h w))) a = (if a = w then clear_coins (h a) else h a)"
    and "clear_coins ((h(w := clear_coins (h w))) a) = clear_coins (h a)"
    by auto
  then have "fold (\<lambda>(k, w) h. h(w := clear_coins (h w))) wl (h(w := clear_coins (h w))) a
      = (if a \<in> snd ` set (x # wl) then clear_coins (h a) else h a)"
    unfolding Cons.IH[of "h(w := clear_coins (h w))"] by (auto simp: x)
  then show ?case by (simp add: x del: fun_upd_apply)
qed

lemma add_unspent_puzzle_hash:
  "w_puzzle_hash (add_unspent C rs w) = w_puzzle_hash w"
  by (simp add: add_unspent_fold)

lemma add_unspent_cleared:
  "usable_coins w = [] \<Longrightarrow> usable_coins (add_unspent C rs w) = coin_dict C (unspent_coins rs)"
  by (simp add: add_unspent_fold coin_dict_def)

lemma add_unspent_idem:
  assumes "usable_coins w = []"
  shows "add_unspent C rs (add_unspent C rs w) = add_unspent C rs w"
proof -
  have "usable_coins (add_unspent C rs w) = coin_dict C (unspent_coins rs)"
    using assms by (rule add_unspent_cleared)
  then show ?thesis
    by (simp add: add_unspent_fold[of C rs "add_unspent C rs w"] coin_dict_idem)
qed

lemma farm_block_heap:
  assumes "farm_block C L net farmer_kw = (farmed, net1)" and "a \<in> snd ` set (wallets net)"
  shows "heap net1 a =
           add_unspent C (get_coin_records_by_puzzle_hash L (sim net1) (w_puzzle_hash (heap net a)))
             (clear_coins (heap net a))"
proof -
  let ?ph = "\<lambda>a. w_puzzle_hash (heap net a)"
  obtain sim1 where s: "sim_farm_block L (sim net)
        (w_puzzle_hash (heap net (case farmer_kw of None \<Rightarrow> nobody net | Some f \<Rightarrow> f))) = (farmed, sim1)"
    using assms(1) by (auto simp: farm_block_def Let_def split: prod.splits)
  define h1 where "h1 = fold (\<lambda>(k, w) h. h(w := clear_coins (h w))) (wallets net) (heap net)"
  define R where "R = (\<lambda>w. add_unspent C (get_coin_records_by_puzzle_hash L sim1 (w_puzzle_hash w)) w)"
  define g where "g = (\<lambda>a. clear_coins (heap net a))"
  have n1: "sim net1 = sim1" and hp: "heap net1 = fold (\<lambda>(kw, w) h. h(w := R (h w))) (wallets net) h1"
    using assms(1) s by (auto simp: farm_block_def Let_def h1_def R_def)
  have h1: "h1 b = (if b \<in> snd ` set (wallets net) then g b else heap net b)" for b
    by (simp add: h1_def clear_fold g_def)
  have idem: "R (R (g b)) = R (g b)" for b
    by (simp add: R_def g_def add_unspent_puzzle_hash add_unspent_idem clear_coins_def)
  have idem': "R (R (h1 b)) = R (h1 b) \<or> b \<notin> snd ` set (wallets net)" for b
    using idem[of b] h1[of b] by auto
  have "fold (\<lambda>(kw, w) h. h(w := R (h w))) wl h b
     = (if b \<in> S \<union> snd ` set wl then R (h1 b) else h1 b)"
    if "\<And>b. h b = (if b \<in> S then R (h1 b) else h1 b)" and "snd ` set wl \<subseteq> snd ` set (wallets net)"
      and "S \<subseteq> snd ` set (wallets net)"
    for wl h S b
    using that
  proof (induction wl arbitrary: h S)
    case Nil
    then show ?case by simp
  next
    case (Cons x wl)
    obtain k w where x: "x = (k, w)" by (cases x)
    have w: "w \<in> snd ` set (wallets net)" using Cons.prems(2) x by auto
    then have i: "R (R (h1 w)) = R (h1 w)" using idem'[of w] by simp
    have "(h(w := R (h w))) c = (if c \<in> insert w S then R (h1 c) else h1 c)" for c
      using Cons.prems(1)[of c] Cons.prems(1)[of w] i by simp
    moreover have "snd ` set wl \<subseteq> snd ` set (wallets net)" using Cons.prems(2) by auto
    moreover have "insert w S \<subseteq> snd ` set (wallets net)" using Cons.prems(3) w by simp
    ultimately have "fold (\<lambda>(kw, w) h. h(w := R (h w))) wl (h(w := R (h w))) b
       = (if b \<in> insert w S \<union> snd ` set wl then R (h1 b) else h1 b)"
      by (rule Cons.IH)
    then show ?case by (simp add: x del: fun_upd_apply)
  qed
  from this[of h1 "{}" "wallets net" a]
  have "heap net1 a = R (h1 a)" using hp assms(2) by simp
  then show ?thesis using h1[of a] assms(2) n1 by (simp add: R_def g_def clear_coins_def)
qed


lemma map_of_named:
  assumes "inj_on f S" and "set xs \<subseteq> S" and "c \<in> set xs"
  shows "map_of (map (\<lambda>c. (f c, c)) xs) (f c) = Some c"
  using assms(2,3)
proof (induction xs)
  case Nil
  then show ?case by simp
next
  case (Cons x xs)
  show ?case
  proof (cases "f x = f c")
    case True
    then have "x = c" using assms(1) Cons.prems by (auto dest: inj_onD)
    then show ?thesis by simp
  next
    case False
    then have "c \<in> set xs" using Cons.prems by auto
    then show ?thesis using Cons.IH Cons.prems False by simp
  qed
qed

lemma coin_dict_values:
  assumes "inj_on (coin_name C) (set cs)"
  shows "snd ` set (coin_dict C cs) = set cs"
proof -
  let ?al = "rev (map (\<lambda>c. (coin_name C c, c)) cs)"
  have d: "distinct (map fst (coin_dict C cs))"
    unfolding coin_dict_def by (rule fold_update_distinct) simp
  have m: "map_of (coin_dict C cs) = map_of ?al"
    by (simp add: coin_dict_def fold_update_map_of)
  have "ran (map_of ?al) = set cs"
  proof
    show "ran (map_of ?al) \<subseteq> set cs"
      by (auto simp: ran_def dest!: map_of_SomeD)
    show "set cs \<subseteq> ran (map_of ?al)"
    proof
      fix c assume c: "c \<in> set cs"
      have "map_of (map (\<lambda>c. (coin_name C c, c)) (rev cs)) (coin_name C c) = Some c"
        using assms by (rule map_of_named) (use c in simp_all)
      then show "c \<in> ran (map_of ?al)" by (auto simp: ran_def rev_map)
    qed
  qed
  then show ?thesis using ran_distinct[OF d] m by simp
qed

text \<open>
  C8. After \<open>farm_block\<close>, the coin dictionary of every wallet registered in the session is
  the dictionary built from nothing out of the unspent records that the ledger, as the
  block left it, answers for the wallet's puzzle hash; nothing of the wallet's earlier
  coins enters it. When distinct coins among them have distinct names, the coins held
  are exactly the coins of those unspent records.
\<close>

theorem farm_block_rebuilds_coin_sets:
  assumes "farm_block C L net farmer_kw = (farmed, net1)" and "(k, a) \<in> set (wallets net)"
  shows
    "(let coin_records = get_coin_records_by_puzzle_hash L (sim net1) (w_puzzle_hash (heap net1 a))
      in w_puzzle_hash (heap net1 a) = w_puzzle_hash (heap net a) \<and>
         wallets net1 = wallets net \<and>
         usable_coins (heap net1 a) = coin_dict C (unspent_coins coin_records) \<and>
         (inj_on (coin_name C) (set (unspent_coins coin_records)) \<longrightarrow>
            snd ` set (usable_coins (heap net1 a))
              = {c. \<exists>r \<in> set coin_records. cr_coin r = c \<and> \<not> spent r}))"
proof -
  have a: "a \<in> snd ` set (wallets net)" using assms(2) by force
  note h = farm_block_heap[OF assms(1) a]
  have ph: "w_puzzle_hash (heap net1 a) = w_puzzle_hash (heap net a)"
    by (simp add: h add_unspent_puzzle_hash clear_coins_def)
  have u: "usable_coins (heap net1 a)
      = coin_dict C (unspent_coins (get_coin_records_by_puzzle_hash L (sim net1) (w_puzzle_hash (heap net a))))"
    unfolding h by (rule add_unspent_cleared) (simp add: clear_coins_def)
  have s: "set (unspent_coins rs) = {c. \<exists>r \<in> set rs. cr_coin r = c \<and> \<not> spent r}" for rs
    by (auto simp: unspent_coins_def)
  show ?thesis
    unfolding Let_def ph
    using farm_block_effect(3)[OF assms(1)] u coin_dict_values[of C] s by auto
qed

theorem farm_block_rebuilds_coin_sets_witness:
  "map snd (usable_coins (heap (snd (farm_block toy_crypto toy_ledger stale_network None)) alice))
     = [alice_coin ''y'' 4, alice_coin ''z'' 6] \<and>
   snd ` set (usable_coins (heap (snd (farm_block toy_crypto toy_ledger stale_network None)) alice))
     = {c. \<exists>r \<in> set (get_coin_records_by_puzzle_hash toy_ledger
                       (sim (snd (farm_block toy_crypto toy_ledger stale_network None))) ''hA'').
             cr_coin r = c \<and> \<not> spent r}"
proof -
  let ?f = "farm_block toy_crypto toy_ledger stale_network None"
  let ?rs = "get_coin_records_by_puzzle_hash toy_ledger (sim (snd ?f)) ''hA''"
  have f: "?f = (fst ?f, snd ?f)" by simp
  have m: "(''PA'', alice) \<in> set (wallets stale_network)"
    by (simp add: stale_network_def toy_network_def)
  note T = farm_block_rebuilds_coin_sets[OF f m, unfolded Let_def]
  have ph: "w_puzzle_hash (heap (snd ?f) alice) = ''hA''"
    using T[THEN conjunct1] by (simp add: stale_network_def toy_network_def toy_wallet_def)
  have rs: "unspent_coins ?rs = [alice_coin ''y'' 4, alice_coin ''z'' 6]"
    by code_simp
  have inj: "inj_on (coin_name toy_crypto) (set (unspent_coins ?rs))"
    unfolding rs by (simp add: toy_crypto_def toy_name_def alice_coin_def)
  have 1: "map snd (usable_coins (heap (snd ?f) alice)) = [alice_coin ''y'' 4, alice_coin ''z'' 6]"
    by code_simp
  have 2: "snd ` set (usable_coins (heap (snd ?f) alice))
     = {c. \<exists>r \<in> set ?rs. cr_coin r = c \<and> \<not> spent r}"
    using T[THEN conjunct2, THEN conjunct2, THEN conjunct2] inj unfolding ph by blast
  show ?thesis using 1 2 by blast
qed

section \<open>skip_time\<close>

lemma skip_step_sim:
  "sim (skip_step C L farmer_kw net) =
     sim_pass_time L
       (snd (sim_farm_block L (sim net)
          (w_puzzle_hash (heap net (case farmer_kw of None \<Rightarrow> nobody net | Some f \<Rightarrow> f)))))
       20"
  by (simp add: skip_step_def farm_block_def Let_def split: prod.splits)

lemma skip_step_clock:
  assumes "\<forall>s ph. sim_timestamp L s \<le> sim_timestamp L (snd (sim_farm_block L s ph))"
    and "\<forall>s n. sim_timestamp L (sim_pass_time L s n) = sim_timestamp L s + n"
  shows "get_timestamp L net + 20000000 \<le> get_timestamp L (skip_step C L farmer_kw net)"
proof -
  let ?ph = "w_puzzle_hash (heap net (case farmer_kw of None \<Rightarrow> nobody net | Some f \<Rightarrow> f))"
  have "sim_timestamp L (sim (skip_step C L farmer_kw net))
      = sim_timestamp L (snd (sim_farm_block L (sim net) ?ph)) + 20"
    using assms(2) by (simp add: skip_step_sim)
  moreover have "sim_timestamp L (sim net) \<le> sim_timestamp L (snd (sim_farm_block L (sim net) ?ph))"
    using assms(1) by blast
  ultimately show ?thesis by (simp add: get_timestamp_def)
qed

lemma skip_loop_returns:
  assumes farm: "\<forall>s ph. sim_timestamp L s \<le> sim_timestamp L (snd (sim_farm_block L s ph))"
    and pass: "\<forall>s n. sim_timestamp L (sim_pass_time L s n) = sim_timestamp L s + n"
  shows "\<exists>n. skip_loop C L farmer_kw target_time net = Some ((skip_step C L farmer_kw ^^ n) net) \<and>
             target_time \<le> get_timestamp L ((skip_step C L farmer_kw ^^ n) net) \<and>
             (\<forall>m<n. get_timestamp L ((skip_step C L farmer_kw ^^ m) net) < target_time)"
proof (induction "nat (target_time - get_timestamp L net)" arbitrary: net rule: less_induct)
  case less
  let ?step = "skip_step C L farmer_kw"
  show ?case
  proof (cases "target_time > get_timestamp L net")
    case False
    then have "skip_loop C L farmer_kw target_time net = Some ((?step ^^ 0) net)"
      by (subst skip_loop.simps) simp
    moreover have "target_time \<le> get_timestamp L ((?step ^^ 0) net)" using False by simp
    ultimately show ?thesis by blast
  next
    case True
    have adv: "get_timestamp L net + 20000000 \<le> get_timestamp L (?step net)"
      using farm pass by (rule skip_step_clock)
    then have "nat (target_time - get_timestamp L (?step net)) < nat (target_time - get_timestamp L net)"
      using True by linarith
    from less[OF this] obtain n where
      n: "skip_loop C L farmer_kw target_time (?step net) = Some ((?step ^^ n) (?step net))"
        "target_time \<le> get_timestamp L ((?step ^^ n) (?step net))"
        "\<forall>m<n. get_timestamp L ((?step ^^ m) (?step net)) < target_time"
      by blast
    have unfold: "skip_loop C L farmer_kw target_time net = skip_loop C L farmer_kw target_time (?step net)"
      using True by (subst skip_loop.simps) simp
    have shift: "(?step ^^ Suc m) net = (?step ^^ m) (?step net)" for m
      by (simp add: funpow_swap1)
    have "get_timestamp L ((?step ^^ m) net) < target_time" if "m < Suc n" for m
    proof (cases m)
      case 0
      then show ?thesis using True by simp
    next
      case (Suc m')
      then have "m' < n" using that by simp
      then show ?thesis using n(3) shift[of m'] Suc by simp
    qed
    then show ?thesis
      using n(1,2) unfold shift[of n] by (intro exI[of _ "Suc n"]) simp
  qed
qed

text \<open>
  C9. On a ledger whose clock \<open>pass_time\<close> advances by the seconds given and whose
  \<open>farm_block\<close> does not set it back, \<open>skip_time\<close> returns: it runs the loop body (farm one
  block, pass 20 seconds) some number of times \<open>n\<close>, the simulator's clock is below the
  session's \<open>time\<close> at the call plus the duration before each of these runs, and has
  reached it after the last.
\<close>

theorem skip_time_reaches_target:
  assumes "\<forall>s ph. sim_timestamp L s \<le> sim_timestamp L (snd (sim_farm_block L s ph))"
    and "\<forall>s n. sim_timestamp L (sim_pass_time L s n) = sim_timestamp L s + n"
  shows "\<exists>n. skip_time C L net duration farmer_kw = Some ((skip_step C L farmer_kw ^^ n) net) \<and>
             time net + duration \<le> get_timestamp L ((skip_step C L farmer_kw ^^ n) net) \<and>
             (\<forall>m<n. get_timestamp L ((skip_step C L farmer_kw ^^ m) net) < time net + duration)"
  unfolding skip_time_def Let_def using assms by (rule skip_loop_returns)

theorem skip_time_reaches_target_witness:
  "(\<exists>n. skip_time toy_crypto toy_ledger (toy_network three_tens) 30000000 None
           = Some ((skip_step toy_crypto toy_ledger None ^^ n) (toy_network three_tens)) \<and>
         time (toy_network three_tens) + 30000000
           \<le> get_timestamp toy_ledger ((skip_step toy_crypto toy_ledger None ^^ n) (toy_network three_tens))) \<and>
   map_option (\<lambda>net1. (ts_timestamp (sim net1), ts_height (sim net1), time net1))
      (skip_time toy_crypto toy_ledger (toy_network three_tens) 30000000 None)
     = Some (41, 2, 37500000)"
proof -
  have farm: "\<forall>s ph. sim_timestamp toy_ledger s \<le> sim_timestamp toy_ledger (snd (sim_farm_block toy_ledger s ph))"
    by (simp add: toy_ledger_def toy_farm_block_def Let_def)
  have pass: "\<forall>s n. sim_timestamp toy_ledger (sim_pass_time toy_ledger s n) = sim_timestamp toy_ledger s + n"
    by (simp add: toy_ledger_def)
  have run: "map_option (\<lambda>net1. (ts_timestamp (sim net1), ts_height (sim net1), time net1))
      (skip_time toy_crypto toy_ledger (toy_network three_tens) 30000000 None)
     = Some (41, 2, 37500000)"
    by code_simp
  from skip_time_reaches_target[OF farm pass, of toy_crypto "toy_network three_tens" 30000000 None] run
  show ?thesis by blast
qed

end
